theory Spec2Isabelle
  imports Complex_Main "HOL-Library.Monad_Syntax"
begin

section \<open>Numeric model\<close>

text \<open>
  The radar code computes in C: \<open>int16_t\<close> coordinates, \<open>uint8_t\<close> and \<open>uint16_t\<close>
  counters, and single-precision \<open>float\<close> for the trigonometry. Integers are modelled by
  \<open>int\<close> and \<open>nat\<close> with every narrowing conversion written out. A \<open>float\<close> is idealised
  as a \<open>real\<close>: \<open>cosf\<close> and \<open>sinf\<close> are the exact cosine and sine, \<open>M_PI\<close> is \<open>pi\<close>, and
  float multiplication and division are exact. Rounding error of the float unit is therefore
  outside this development; the conversions between float and integer are not, and neither
  are the infinity and the NaN that a division by zero gives in the marker functions.
\<close>

type_synonym cfloat = real

definition M_PI :: cfloat where
  "M_PI = pi"

definition cosf :: "cfloat \<Rightarrow> cfloat" where
  "cosf x = cos x"

definition sinf :: "cfloat \<Rightarrow> cfloat" where
  "sinf x = sin x"

text \<open>The integral part of a float, as a C cast takes it: truncation toward zero.\<close>

definition c_trunc :: "cfloat \<Rightarrow> int" where
  "c_trunc v = (if 0 \<le> v then \<lfloor>v\<rfloor> else \<lceil>v\<rceil>)"

text \<open>
  \<open>(int16_t)v\<close> for a float \<open>v\<close>: the truncated value when \<open>int16_t\<close> can represent it.
  Otherwise the behaviour is undefined in C, which is the value \<open>None\<close> here.
\<close>

definition f2i16 :: "cfloat \<Rightarrow> int option" where
  "f2i16 v = (let t = c_trunc v in if - 32768 \<le> t \<and> t \<le> 32767 then Some t else None)"

text \<open>
  Storing an \<open>int\<close> into an \<open>int16_t\<close> variable: the value is reduced modulo \<open>2^16\<close> into
  the range \<open>-32768 .. 32767\<close> (the conversion the compiler of the target defines).
\<close>

definition wrap16 :: "int \<Rightarrow> int" where
  "wrap16 x = (x + 32768) mod 65536 - 32768"

text \<open>Storing an \<open>int\<close> into a \<open>uint8_t\<close> variable.\<close>

definition wrap8 :: "int \<Rightarrow> nat" where
  "wrap8 x = nat (x mod 256)"

text \<open>\<open>(deg * M_PI) / 180.0f\<close>, the conversion from degrees that every transform starts with.\<close>

definition deg2rad :: "cfloat \<Rightarrow> cfloat" where
  "deg2rad deg = (deg * M_PI) / 180"

text \<open>
  The polar-to-screen transform. The source repeats it in place at every use
  (\<open>lv_radar_screen_draw\<close>, \<open>lv_radar_sweep_update\<close> for the sweep line and for each shadow,
  and both marker functions):
  \<^verbatim>\<open>int16_t end_x = center_x + (int16_t)(radius * cosf(angle_rad));\<close>
  \<^verbatim>\<open>int16_t end_y = center_y - (int16_t)(radius * sinf(angle_rad));\<close>
  The first argument of length is a float because the marker functions pass
  \<open>pixel_distance\<close> where the others pass the integer radius.
\<close>

definition end_point :: "int \<Rightarrow> int \<Rightarrow> cfloat \<Rightarrow> cfloat \<Rightarrow> (int \<times> int) option" where
  "end_point cx cy len angle_rad =
     do {
       dx \<leftarrow> f2i16 (len * cosf angle_rad);
       dy \<leftarrow> f2i16 (len * sinf angle_rad);
       Some (wrap16 (cx + dx), wrap16 (cy - dy))
     }"

section \<open>The drawing surface\<close>

text \<open>
  LVGL is outside the repository. An object handle is a number, \<open>NULL\<close> is \<open>None\<close>, and the
  surface is the sequence of calls made on it together with the next handle it will hand out.
  Only the calls that carry geometry, opacity or lifetime are recorded; the style calls are
  left out. A create call always succeeds with a handle that was never handed out before.
\<close>

type_synonym handle = nat

datatype lv_call =
    Line_create handle
  | Arc_create handle
  | Label_create handle
  | Obj_create handle
  | Line_set_points handle "(int \<times> int) list"
  | Set_line_opa handle nat
  | Set_size handle int int
  | Set_pos handle int int
  | Obj_del handle
  | Free_sweep

record display =
  next_handle :: handle
  calls :: "lv_call list"

definition emit :: "lv_call \<Rightarrow> display \<Rightarrow> display" where
  "emit c d = d\<lparr>calls := calls d @ [c]\<rparr>"

definition lv_line_create :: "display \<Rightarrow> handle \<times> display" where
  "lv_line_create d =
     (next_handle d, emit (Line_create (next_handle d)) (d\<lparr>next_handle := Suc (next_handle d)\<rparr>))"

definition lv_arc_create :: "display \<Rightarrow> handle \<times> display" where
  "lv_arc_create d =
     (next_handle d, emit (Arc_create (next_handle d)) (d\<lparr>next_handle := Suc (next_handle d)\<rparr>))"

definition lv_label_create :: "display \<Rightarrow> handle \<times> display" where
  "lv_label_create d =
     (next_handle d, emit (Label_create (next_handle d)) (d\<lparr>next_handle := Suc (next_handle d)\<rparr>))"

definition lv_obj_create :: "display \<Rightarrow> handle \<times> display" where
  "lv_obj_create d =
     (next_handle d, emit (Obj_create (next_handle d)) (d\<lparr>next_handle := Suc (next_handle d)\<rparr>))"

section \<open>The sweep\<close>

text \<open>
  \<open>lv_radar_sweep_t\<close>. The array of five shadow handles is a function of the index. The
  \<open>parent\<close> pointer is left out: it is only passed on to the create calls.
\<close>

record lv_radar_sweep =
  center_x :: int
  center_y :: int
  radius :: int
  current_angle :: nat
  sweep_line :: "handle option"
  shadow_lines :: "nat \<Rightarrow> handle option"

text \<open>\<open>if (angle > 180) angle = 180;\<close>\<close>

definition clamp_angle :: "nat \<Rightarrow> nat" where
  "clamp_angle angle = (if angle > 180 then 180 else angle)"

text \<open>
  \<^verbatim>\<open>float shadow_angle = angle - ((i + 1) * 8); if (shadow_angle < 0) shadow_angle = 0;\<close>
  The subtraction is done in \<open>int\<close> (both operands are promoted) and then converted.
\<close>

definition shadow_angle :: "nat \<Rightarrow> nat \<Rightarrow> cfloat" where
  "shadow_angle angle i =
     (let a = real_of_int (int angle - (int i + 1) * 8) in if a < 0 then 0 else a)"

text \<open>\<^verbatim>\<open>uint8_t opacity = 255 - (i * 50);\<close>\<close>

definition shadow_opacity :: "nat \<Rightarrow> nat" where
  "shadow_opacity i = wrap8 (255 - int i * 50)"

text \<open>The body of the shadow loop for index \<open>i\<close>.\<close>

definition shadow_step :: "nat \<Rightarrow> nat \<Rightarrow> lv_radar_sweep \<times> display \<Rightarrow> (lv_radar_sweep \<times> display) option" where
  "shadow_step angle i sd =
     (case sd of (s, d) \<Rightarrow>
      do {
        p \<leftarrow> end_point (center_x s) (center_y s) (real_of_int (radius s))
               (deg2rad (shadow_angle angle i));
        let (h, d1) = (case shadow_lines s i of
                         None \<Rightarrow> lv_line_create d
                       | Some h \<Rightarrow> (h, d));
        let s1 = s\<lparr>shadow_lines := (shadow_lines s)(i := Some h)\<rparr>;
        let d2 = emit (Set_line_opa h (shadow_opacity i)) d1;
        let d3 = emit (Line_set_points h [(center_x s, center_y s), p]) d2;
        Some (s1, d3)
      })"

text \<open>\<^verbatim>\<open>for (int16_t i = 0; i < shadow_count; i++)\<close> with \<open>shadow_count = 5\<close>.\<close>

function shadow_loop :: "nat \<Rightarrow> nat \<Rightarrow> lv_radar_sweep \<times> display \<Rightarrow> (lv_radar_sweep \<times> display) option" where
  "shadow_loop angle i sd =
     (if i < 5 then
        (case shadow_step angle i sd of
           None \<Rightarrow> None
         | Some sd' \<Rightarrow> shadow_loop angle (i + 1) sd')
      else Some sd)"
  by pat_completeness auto
termination
  by (relation "measure (\<lambda>(angle, i, sd). 5 - i)") auto

declare shadow_loop.simps [simp del]

definition lv_radar_sweep_update :: "lv_radar_sweep \<Rightarrow> nat \<Rightarrow> display \<Rightarrow> (lv_radar_sweep \<times> display) option" where
  "lv_radar_sweep_update sweep angle0 d =
     (let angle = clamp_angle angle0;
          s = sweep\<lparr>current_angle := angle\<rparr>
      in do {
        p \<leftarrow> end_point (center_x s) (center_y s) (real_of_int (radius s))
               (deg2rad (real angle));
        let (h, d1) = (case sweep_line s of
                         None \<Rightarrow> lv_line_create d
                       | Some h \<Rightarrow> (h, d));
        let s1 = s\<lparr>sweep_line := Some h\<rparr>;
        let d2 = emit (Line_set_points h [(center_x s, center_y s), p]) d1;
        shadow_loop angle 0 (s1, d2)
      })"

text \<open>
  \<open>lv_radar_sweep_delete\<close>. The argument is a pointer: \<open>None\<close> is the \<open>NULL\<close> pointer.
  The loop over the five shadow handles comes first.
\<close>

function delete_shadows :: "nat \<Rightarrow> lv_radar_sweep \<Rightarrow> display \<Rightarrow> display" where
  "delete_shadows i s d =
     (if i < 5 then
        delete_shadows (i + 1) s
          (case shadow_lines s i of None \<Rightarrow> d | Some h \<Rightarrow> emit (Obj_del h) d)
      else d)"
  by pat_completeness auto
termination
  by (relation "measure (\<lambda>(i, s, d). 5 - i)") auto

declare delete_shadows.simps [simp del]

definition lv_radar_sweep_delete :: "lv_radar_sweep option \<Rightarrow> display \<Rightarrow> display" where
  "lv_radar_sweep_delete sweep d =
     (case sweep of
        None \<Rightarrow> d
      | Some s \<Rightarrow>
          (let d1 = (case sweep_line s of None \<Rightarrow> d | Some h \<Rightarrow> emit (Obj_del h) d);
               d2 = delete_shadows 0 s d1
           in emit Free_sweep d2))"

section \<open>Markers\<close>

text \<open>\<open>lv_radar_marker_t\<close>; the distance is in meters.\<close>

record lv_radar_marker =
  icon :: "handle option"
  distance :: cfloat
  angle :: nat

text \<open>
  A float division does not trap on a zero divisor: the quotient is an infinity, or a NaN
  when the dividend is zero too. The marker functions divide by the radius and carry on
  with the quotient, so their floats are finite values, an infinity (of either sign) or NaN.
\<close>

datatype xfloat = Fin cfloat | Infty | NaN

definition xdiv :: "cfloat \<Rightarrow> cfloat \<Rightarrow> xfloat" where
  "xdiv a b = (if b \<noteq> 0 then Fin (a / b) else if a = 0 then NaN else Infty)"

text \<open>
  The grid code divides by \<open>line_count - 1\<close>, and there a quotient by zero always goes on,
  as a NaN, to a conversion to \<open>int16_t\<close>, which is undefined: \<open>None\<close> at once.
\<close>

definition fdiv :: "cfloat \<Rightarrow> cfloat \<Rightarrow> cfloat option" where
  "fdiv a b = (if b = 0 then None else Some (a / b))"

text \<open>
  \<^verbatim>\<open>float total_meters = band_count * 2.0f;\<close>
  \<^verbatim>\<open>float meters_per_pixel = total_meters / radius;\<close>
  as both marker functions start. \<open>radius\<close> is the file's static variable, passed here
  as an argument, as are \<open>center_x\<close> and \<open>center_y\<close> below. A radius of 0 gives an
  infinity, or a NaN when the band count is 0 as well.
\<close>

definition meters_per_pixel :: "int \<Rightarrow> nat \<Rightarrow> xfloat" where
  "meters_per_pixel r band_count = xdiv (real band_count * 2) (real_of_int r)"

text \<open>
  \<^verbatim>\<open>float pixel_distance = marker->distance / meters_per_pixel;\<close>
  A finite distance divided by an infinity is zero, and anything divided by NaN is NaN.
\<close>

definition pixel_distance :: "cfloat \<Rightarrow> xfloat \<Rightarrow> xfloat" where
  "pixel_distance dm mpp =
     (case mpp of Fin m \<Rightarrow> xdiv dm m | Infty \<Rightarrow> Fin 0 | NaN \<Rightarrow> NaN)"

text \<open>
  The position both marker functions compute for one marker: the pixel distance,
  \<^verbatim>\<open>float angle_rad = (marker->angle * M_PI) / 180.0f;\<close>
  and the transform, which gives \<open>(marker_x, marker_y)\<close>. With an infinite or NaN pixel
  distance the products of the transform are infinite or NaN, and their conversion to
  \<open>int16_t\<close> is undefined.
\<close>

definition marker_xy :: "int \<Rightarrow> int \<Rightarrow> xfloat \<Rightarrow> lv_radar_marker \<Rightarrow> (int \<times> int) option" where
  "marker_xy cx cy mpp marker =
     (case pixel_distance (distance marker) mpp of
        Fin pd \<Rightarrow> end_point cx cy pd (deg2rad (real (angle marker)))
      | Infty \<Rightarrow> None
      | NaN \<Rightarrow> None)"

text \<open>
  The loop of \<open>lv_radar_add_markers\<close>. The array is a list; reading a slot beyond its end
  is undefined, \<open>None\<close>. Every slot gets a new label, whatever its \<open>icon\<close> field held.
\<close>

function add_markers_loop ::
  "int \<Rightarrow> int \<Rightarrow> xfloat \<Rightarrow> nat \<Rightarrow> nat \<Rightarrow> lv_radar_marker list \<times> display
     \<Rightarrow> (lv_radar_marker list \<times> display) option" where
  "add_markers_loop cx cy mpp marker_count i md =
     (if i < marker_count then
        (case md of (markers, d) \<Rightarrow>
           if i < length markers then
             (case marker_xy cx cy mpp (markers ! i) of
                None \<Rightarrow> None
              | Some (marker_x, marker_y) \<Rightarrow>
                  (case lv_label_create d of (h, d1) \<Rightarrow>
                     add_markers_loop cx cy mpp marker_count (i + 1)
                       (markers[i := (markers ! i)\<lparr>icon := Some h\<rparr>],
                        emit (Set_pos h (marker_x - 8) (marker_y - 8)) d1)))
           else None)
      else Some md)"
  by pat_completeness auto
termination
  by (relation "measure (\<lambda>(cx, cy, mpp, marker_count, i, md). marker_count - i)") auto

declare add_markers_loop.simps [simp del]

definition lv_radar_add_markers ::
  "int \<Rightarrow> int \<Rightarrow> int \<Rightarrow> nat \<Rightarrow> lv_radar_marker list \<Rightarrow> nat \<Rightarrow> display
     \<Rightarrow> (lv_radar_marker list \<times> display) option" where
  "lv_radar_add_markers cx cy r band_count markers marker_count d =
     add_markers_loop cx cy (meters_per_pixel r band_count) marker_count 0 (markers, d)"

text \<open>
  The loop of \<open>lv_radar_update_markers\<close>. \<open>lv_obj_set_pos\<close> on a \<open>NULL\<close> icon is a
  null-pointer access: \<open>None\<close>.
\<close>

function update_markers_loop ::
  "int \<Rightarrow> int \<Rightarrow> xfloat \<Rightarrow> nat \<Rightarrow> nat \<Rightarrow> lv_radar_marker list \<Rightarrow> display
     \<Rightarrow> display option" where
  "update_markers_loop cx cy mpp marker_count i markers d =
     (if i < marker_count then
        (if i < length markers then
           (case marker_xy cx cy mpp (markers ! i) of
              None \<Rightarrow> None
            | Some (marker_x, marker_y) \<Rightarrow>
                (case icon (markers ! i) of
                   None \<Rightarrow> None
                 | Some h \<Rightarrow>
                     update_markers_loop cx cy mpp marker_count (i + 1) markers
                       (emit (Set_pos h (marker_x - 8) (marker_y - 8)) d)))
         else None)
      else Some d)"
  by pat_completeness auto
termination
  by (relation "measure (\<lambda>(cx, cy, mpp, marker_count, i, markers, d). marker_count - i)") auto

declare update_markers_loop.simps [simp del]

definition lv_radar_update_markers ::
  "int \<Rightarrow> int \<Rightarrow> int \<Rightarrow> nat \<Rightarrow> lv_radar_marker list \<Rightarrow> nat \<Rightarrow> display \<Rightarrow> display option" where
  "lv_radar_update_markers cx cy r band_count markers marker_count d =
     update_markers_loop cx cy (meters_per_pixel r band_count) marker_count 0 markers d"

text \<open>\<open>lv_radar_remove_markers\<close>.\<close>

function remove_markers_loop ::
  "nat \<Rightarrow> nat \<Rightarrow> lv_radar_marker list \<times> display \<Rightarrow> (lv_radar_marker list \<times> display) option" where
  "remove_markers_loop marker_count i md =
     (if i < marker_count then
        (case md of (markers, d) \<Rightarrow>
           if i < length markers then
             (case icon (markers ! i) of
                None \<Rightarrow> remove_markers_loop marker_count (i + 1) (markers, d)
              | Some h \<Rightarrow>
                  remove_markers_loop marker_count (i + 1)
                    (markers[i := (markers ! i)\<lparr>icon := None\<rparr>], emit (Obj_del h) d))
           else None)
      else Some md)"
  by pat_completeness auto
termination
  by (relation "measure (\<lambda>(marker_count, i, md). marker_count - i)") auto

declare remove_markers_loop.simps [simp del]

definition lv_radar_remove_markers ::
  "lv_radar_marker list \<Rightarrow> nat \<Rightarrow> display \<Rightarrow> (lv_radar_marker list \<times> display) option" where
  "lv_radar_remove_markers markers marker_count d = remove_markers_loop marker_count 0 (markers, d)"

section \<open>The grid\<close>

text \<open>Integer division in C truncates toward zero, and a zero divisor is undefined.\<close>

definition c_quot :: "int \<Rightarrow> int \<Rightarrow> int" where
  "c_quot a b = sgn a * sgn b * (\<bar>a\<bar> div \<bar>b\<bar>)"

definition c_div :: "int \<Rightarrow> int \<Rightarrow> int option" where
  "c_div a b = (if b = 0 then None else Some (c_quot a b))"

text \<open>
  The loop over the bands, the same in both versions of \<open>lv_radar_screen_draw\<close>:
  \<^verbatim>\<open>for (uint8_t band = 1; band <= band_count; band++)\<close>.
  The counter is a \<open>uint8_t\<close>, so its increment is modulo 256 and the loop need not end.
\<close>

partial_function (option) draw_arcs ::
  "int \<Rightarrow> int \<Rightarrow> int \<Rightarrow> nat \<Rightarrow> nat \<Rightarrow> display \<Rightarrow> display option" where
  "draw_arcs cx cy band_radius band_count band d =
     (if band \<le> band_count then
        (case lv_arc_create d of (arc, d1) \<Rightarrow>
           draw_arcs cx cy band_radius band_count ((band + 1) mod 256)
             (emit (Set_pos arc (cx - wrap16 (band_radius * int band))
                                (cy - wrap16 (band_radius * int band)))
                (emit (Set_size arc (wrap16 (band_radius * int band) * 2)
                                    (wrap16 (band_radius * int band) * 2)) d1)))
      else Some d)"

text \<open>
  The loop over the radial lines in the current version (the file with the marker
  functions). The end points are kept in \<open>static lv_point_precise_t points[10][2]\<close>, so a
  line index of 10 or more writes beyond the array: \<open>None\<close>.
\<close>

function draw_lines :: "int \<Rightarrow> int \<Rightarrow> int \<Rightarrow> nat \<Rightarrow> nat \<Rightarrow> display \<Rightarrow> display option" where
  "draw_lines cx cy r line_count i d =
     (if i < line_count then
        (case fdiv 180 (real_of_int (int line_count - 1)) of
           None \<Rightarrow> None
         | Some step \<Rightarrow>
             (case end_point cx cy (real_of_int r) (deg2rad (step * real i)) of
                None \<Rightarrow> None
              | Some p \<Rightarrow>
                  (case lv_line_create d of (line, d1) \<Rightarrow>
                     if i < 10 then
                       draw_lines cx cy r line_count (i + 1)
                         (emit (Line_set_points line [(cx, cy), p]) d1)
                     else None)))
      else Some d)"
  by pat_completeness auto
termination
  by (relation "measure (\<lambda>(cx, cy, r, line_count, i, d). line_count - i)") auto

declare draw_lines.simps [simp del]

text \<open>
  \<open>lv_radar_screen_draw\<close>, current version: \<open>center_x\<close>, \<open>center_y\<close> and \<open>radius\<close> are the
  file's static variables. The band radius is computed before anything is drawn.
\<close>

definition lv_radar_screen_draw :: "int \<Rightarrow> int \<Rightarrow> int \<Rightarrow> nat \<Rightarrow> nat \<Rightarrow> display \<Rightarrow> display option" where
  "lv_radar_screen_draw cx cy r band_count line_count d =
     (case c_div r (int band_count) of
        None \<Rightarrow> None
      | Some q \<Rightarrow>
          (case draw_lines cx cy r line_count 0 d of
             None \<Rightarrow> None
           | Some d1 \<Rightarrow> draw_arcs cx cy (wrap16 q) band_count 1 d1))"

text \<open>
  \<open>lv_radar_screen_create\<close>, current version: it creates the container, sets the three
  static variables from the size and draws the grid with 4 bands and 9 lines. The result is
  the container, the values of \<open>center_x\<close>, \<open>center_y\<close> and \<open>radius\<close>, and the surface.
\<close>

definition lv_radar_screen_create ::
  "int \<Rightarrow> int \<Rightarrow> display \<Rightarrow> (handle \<times> (int \<times> int \<times> int) \<times> display) option" where
  "lv_radar_screen_create width height d =
     (case lv_obj_create d of (radar_cont, d1) \<Rightarrow>
        (let d2 = emit (Set_size radar_cont width height) d1;
             cx = wrap16 (c_quot width 2);
             cy = height;
             r = wrap16 (height - 10)
         in case lv_radar_screen_draw cx cy r 4 9 d2 of
              None \<Rightarrow> None
            | Some d3 \<Rightarrow> Some (radar_cont, (cx, cy, r), d3)))"

text \<open>
  The earlier version, in \<open>main/radar_screen.c\<close>: arcs first, then the radial lines (one
  shared \<open>points[2]\<close>, so no bound on the index), then a horizontal line at each inner band.
\<close>

function draw_lines_v0 :: "int \<Rightarrow> int \<Rightarrow> int \<Rightarrow> nat \<Rightarrow> nat \<Rightarrow> display \<Rightarrow> display option" where
  "draw_lines_v0 cx cy r line_count i d =
     (if i < line_count then
        (case fdiv 180 (real_of_int (int line_count - 1)) of
           None \<Rightarrow> None
         | Some step \<Rightarrow>
             (case end_point cx cy (real_of_int r) (deg2rad (step * real i)) of
                None \<Rightarrow> None
              | Some p \<Rightarrow>
                  (case lv_line_create d of (line, d1) \<Rightarrow>
                     draw_lines_v0 cx cy r line_count (i + 1)
                       (emit (Line_set_points line [(cx, cy), p]) d1))))
      else Some d)"
  by pat_completeness auto
termination
  by (relation "measure (\<lambda>(cx, cy, r, line_count, i, d). line_count - i)") auto

declare draw_lines_v0.simps [simp del]

function draw_band_lines_v0 :: "int \<Rightarrow> int \<Rightarrow> int \<Rightarrow> nat \<Rightarrow> nat \<Rightarrow> display \<Rightarrow> display" where
  "draw_band_lines_v0 cx cy band_radius band_count band d =
     (if band < band_count then
        (case lv_line_create d of (h_line, d1) \<Rightarrow>
           draw_band_lines_v0 cx cy band_radius band_count (band + 1)
             (emit (Line_set_points h_line
                      [(cx - band_radius * int band, wrap16 (cy - band_radius * int band)),
                       (cx + band_radius * int band, wrap16 (cy - band_radius * int band))]) d1))
      else d)"
  by pat_completeness auto
termination
  by (relation "measure (\<lambda>(cx, cy, band_radius, band_count, band, d). band_count - band)") auto

declare draw_band_lines_v0.simps [simp del]

definition lv_radar_screen_draw_v0 :: "int \<Rightarrow> int \<Rightarrow> int \<Rightarrow> nat \<Rightarrow> nat \<Rightarrow> display \<Rightarrow> display option" where
  "lv_radar_screen_draw_v0 cx cy r band_count line_count d =
     (case c_div r (int band_count) of
        None \<Rightarrow> None
      | Some q \<Rightarrow>
          (case draw_arcs cx cy (wrap16 q) band_count 1 d of
             None \<Rightarrow> None
           | Some d1 \<Rightarrow>
               (case draw_lines_v0 cx cy r line_count 0 d1 of
                  None \<Rightarrow> None
                | Some d2 \<Rightarrow> Some (draw_band_lines_v0 cx cy (wrap16 q) band_count 1 d2))))"

text \<open>The calls that create a primitive (a line, an arc or a label).\<close>

fun is_create :: "lv_call \<Rightarrow> bool" where
  "is_create (Line_create h) = True"
| "is_create (Arc_create h) = True"
| "is_create (Label_create h) = True"
| "is_create c = False"

section \<open>Auxiliary definitions for the statements\<close>

text \<open>
  What the shadow loop establishes for index \<open>j\<close>: the slot holds a handle, and that handle
  was given the opacity of \<open>j\<close> and the end point at the shadow angle of \<open>j\<close>.
\<close>

definition shadow_ok :: "nat \<Rightarrow> lv_radar_sweep \<Rightarrow> lv_radar_sweep \<Rightarrow> display \<Rightarrow> nat \<Rightarrow> bool" where
  "shadow_ok a s s' d' j \<longleftrightarrow>
     (\<exists>h p. shadow_lines s' j = Some h
        \<and> end_point (center_x s) (center_y s) (real_of_int (radius s))
             (deg2rad (shadow_angle a j)) = Some p
        \<and> Set_line_opa h (shadow_opacity j) \<in> set (calls d')
        \<and> Line_set_points h [(center_x s, center_y s), p] \<in> set (calls d'))"

text \<open>A 480 by 320 panel: the sweep as \<open>lv_radar_sweep_create\<close> initialises it, and an empty surface.\<close>

definition sweep0 :: lv_radar_sweep where
  "sweep0 = \<lparr>center_x = 240, center_y = 320, radius = 310, current_angle = 0,
             sweep_line = None, shadow_lines = (\<lambda>i. None)\<rparr>"

definition display0 :: display where
  "display0 = \<lparr>next_handle = 0, calls = []\<rparr>"

text \<open>The two markers of \<open>lv_radar_panel_init\<close>, the first with an icon already.\<close>

definition markers0 :: "lv_radar_marker list" where
  "markers0 = [\<lparr>icon = Some 7, distance = 5 / 2, angle = 45\<rparr>,
               \<lparr>icon = None, distance = 9 / 2, angle = 120\<rparr>]"

text \<open>
  Targets at 45 degrees: at the distance 2500 of the scenario, at 2.5 (the first marker of
  \<open>lv_radar_panel_init\<close>, "2.5 meters at 45 degrees") and at 8, the full range of 4 bands.
\<close>

definition target_2500 :: lv_radar_marker where
  "target_2500 = \<lparr>icon = None, distance = 2500, angle = 45\<rparr>"

definition target_2_5 :: lv_radar_marker where
  "target_2_5 = \<lparr>icon = None, distance = 5 / 2, angle = 45\<rparr>"

definition target_8 :: lv_radar_marker where
  "target_8 = \<lparr>icon = None, distance = 8, angle = 45\<rparr>"

text \<open>A marker 2 meters away at 0 degrees, and the surface after its icon was added.\<close>

definition marker_east :: lv_radar_marker where
  "marker_east = \<lparr>icon = None, distance = 2, angle = 0\<rparr>"

definition display1 :: display where
  "display1 = \<lparr>next_handle = 1, calls = [Label_create 0, Set_pos 0 309 312]\<rparr>"

text \<open>The calls that size an object, and those that position one.\<close>

fun is_set_size :: "lv_call \<Rightarrow> bool" where
  "is_set_size (Set_size h w ht) = True"
| "is_set_size c = False"

fun is_set_pos :: "lv_call \<Rightarrow> bool" where
  "is_set_pos (Set_pos h x y) = True"
| "is_set_pos c = False"

text \<open>A marker at the full range of 4 bands, 8 meters, at 0 degrees.\<close>

definition marker_8m :: lv_radar_marker where
  "marker_8m = \<lparr>icon = None, distance = 8, angle = 0\<rparr>"

section \<open>Conversions and the transform\<close>


lemma c_trunc_abs_le: "\<bar>v\<bar> \<le> real_of_int n \<Longrightarrow> \<bar>c_trunc v\<bar> \<le> n"
  unfolding c_trunc_def by (auto simp: abs_le_iff; linarith)

lemma c_trunc_of_int [simp]: "c_trunc (real_of_int n) = n"
  by (simp add: c_trunc_def)

lemma abs_mult_cos_le: "\<bar>len * cos (x::real)\<bar> \<le> \<bar>len\<bar>"
proof -
  have "\<bar>len\<bar> * \<bar>cos x\<bar> \<le> \<bar>len\<bar> * 1"
    by (rule mult_left_mono) simp_all
  then show ?thesis by (simp add: abs_mult)
qed

lemma abs_mult_sin_le: "\<bar>len * sin (x::real)\<bar> \<le> \<bar>len\<bar>"
proof -
  have "\<bar>len\<bar> * \<bar>sin x\<bar> \<le> \<bar>len\<bar> * 1"
    by (rule mult_left_mono) simp_all
  then show ?thesis by (simp add: abs_mult)
qed

lemma f2i16_Some: "\<bar>v\<bar> \<le> 32767 \<Longrightarrow> f2i16 v = Some (c_trunc v)"
proof -
  assume "\<bar>v\<bar> \<le> 32767"
  then have "\<bar>v\<bar> \<le> real_of_int 32767" by simp
  then have "\<bar>c_trunc v\<bar> \<le> 32767" by (rule c_trunc_abs_le)
  then have "- 32768 \<le> c_trunc v \<and> c_trunc v \<le> 32767" by linarith
  then show ?thesis by (simp add: f2i16_def Let_def)
qed

lemma end_point_Some:
  assumes "\<bar>len\<bar> \<le> 32767"
  shows "end_point cx cy len t =
           Some (wrap16 (cx + c_trunc (len * cos t)), wrap16 (cy - c_trunc (len * sin t)))"
proof -
  have "\<bar>len * cos t\<bar> \<le> 32767" using abs_mult_cos_le [of len t] assms by linarith
  moreover have "\<bar>len * sin t\<bar> \<le> 32767" using abs_mult_sin_le [of len t] assms by linarith
  ultimately show ?thesis
    by (simp add: end_point_def cosf_def sinf_def f2i16_Some)
qed

lemma shadow_step_spec:
  assumes "shadow_step a i (s, d) = Some (s', d')"
  shows "\<exists>h p. s' = s\<lparr>shadow_lines := (shadow_lines s)(i := Some h)\<rparr>
           \<and> end_point (center_x s) (center_y s) (real_of_int (radius s))
                (deg2rad (shadow_angle a i)) = Some p
           \<and> Set_line_opa h (shadow_opacity i) \<in> set (calls d')
           \<and> Line_set_points h [(center_x s, center_y s), p] \<in> set (calls d')
           \<and> set (calls d) \<subseteq> set (calls d')"
  using assms
  by (auto simp: shadow_step_def emit_def lv_line_create_def Let_def
           split: Option.bind_splits option.splits prod.splits)

lemma shadow_step_total:
  assumes "\<bar>radius s\<bar> \<le> 32767"
  shows "\<exists>s' d'. shadow_step a i (s, d) = Some (s', d')"
proof -
  have "\<bar>real_of_int (radius s)\<bar> \<le> 32767" using assms by linarith
  then show ?thesis
    by (simp add: shadow_step_def end_point_Some Let_def split: prod.splits option.splits)
qed


lemma shadow_loop_spec:
  "shadow_loop a i (s, d) = Some (s', d') \<Longrightarrow>
     center_x s' = center_x s \<and> center_y s' = center_y s \<and> radius s' = radius s
     \<and> current_angle s' = current_angle s \<and> sweep_line s' = sweep_line s
     \<and> set (calls d) \<subseteq> set (calls d')
     \<and> (\<forall>j < i. shadow_lines s' j = shadow_lines s j)
     \<and> (\<forall>j. i \<le> j \<and> j < 5 \<longrightarrow> shadow_ok a s s' d' j)"
proof (induction a i "(s, d)" arbitrary: s d rule: shadow_loop.induct)
  case (1 a i s d)
  show ?case
  proof (cases "i < 5")
    case False
    with "1.prems" have "s' = s" "d' = d" by (simp_all add: shadow_loop.simps)
    with False show ?thesis by auto
  next
    case True
    with "1.prems" obtain s1 d1 where
      st: "shadow_step a i (s, d) = Some (s1, d1)" and
      lp: "shadow_loop a (i + 1) (s1, d1) = Some (s', d')"
      by (auto simp: shadow_loop.simps [of a i] split: option.splits)
    from shadow_step_spec [OF st] obtain h p where
      s1: "s1 = s\<lparr>shadow_lines := (shadow_lines s)(i := Some h)\<rparr>" and
      p: "end_point (center_x s) (center_y s) (real_of_int (radius s))
            (deg2rad (shadow_angle a i)) = Some p" and
      opa: "Set_line_opa h (shadow_opacity i) \<in> set (calls d1)" and
      pts: "Line_set_points h [(center_x s, center_y s), p] \<in> set (calls d1)" and
      sub: "set (calls d) \<subseteq> set (calls d1)"
      by blast
    note ih = "1.hyps" [OF True st lp]
    have fields: "center_x s' = center_x s" "center_y s' = center_y s" "radius s' = radius s"
      "current_angle s' = current_angle s" "sweep_line s' = sweep_line s"
      using ih by (simp_all add: s1)
    have sub': "set (calls d1) \<subseteq> set (calls d')" using ih by simp
    have low: "\<forall>j < i + 1. shadow_lines s' j = shadow_lines s1 j" using ih by simp
    have hi: "\<forall>j. i + 1 \<le> j \<and> j < 5 \<longrightarrow> shadow_ok a s1 s' d' j" using ih by simp
    have at_i: "shadow_ok a s s' d' i"
      unfolding shadow_ok_def using low p opa pts sub' by (auto simp: s1)
    have above: "shadow_ok a s s' d' j" if "i + 1 \<le> j" "j < 5" for j
      using hi that by (simp add: shadow_ok_def s1)
    have all: "\<forall>j. i \<le> j \<and> j < 5 \<longrightarrow> shadow_ok a s s' d' j"
    proof (intro allI impI)
      fix j assume "i \<le> j \<and> j < 5"
      then consider "j = i" | "i + 1 \<le> j" "j < 5" by linarith
      then show "shadow_ok a s s' d' j" using at_i above by cases auto
    qed
    have below: "\<forall>j < i. shadow_lines s' j = shadow_lines s j"
      using low by (simp add: s1)
    show ?thesis using fields sub sub' below all by auto
  qed
qed

lemma shadow_loop_total:
  "\<bar>radius s\<bar> \<le> 32767 \<Longrightarrow> \<exists>s' d'. shadow_loop a i (s, d) = Some (s', d')"
proof (induction a i "(s, d)" arbitrary: s d rule: shadow_loop.induct)
  case (1 a i s d)
  show ?case
  proof (cases "i < 5")
    case False
    then show ?thesis by (simp add: shadow_loop.simps)
  next
    case True
    from shadow_step_total [OF "1.prems"] obtain s1 d1 where
      st: "shadow_step a i (s, d) = Some (s1, d1)" by blast
    from shadow_step_spec [OF st] have "radius s1 = radius s" by auto
    with "1.prems" have "\<bar>radius s1\<bar> \<le> 32767" by simp
    from "1.hyps" [OF True st this] show ?thesis
      using True st by (simp add: shadow_loop.simps [of a i])
  qed
qed


lemma sweep_update_spec:
  assumes "lv_radar_sweep_update s a d = Some (s', d')"
  shows "current_angle s' = clamp_angle a \<and> center_x s' = center_x s
     \<and> center_y s' = center_y s \<and> radius s' = radius s
     \<and> set (calls d) \<subseteq> set (calls d')
     \<and> (\<exists>h p. sweep_line s' = Some h
           \<and> end_point (center_x s) (center_y s) (real_of_int (radius s))
                (deg2rad (real (clamp_angle a))) = Some p
           \<and> Line_set_points h [(center_x s, center_y s), p] \<in> set (calls d'))
     \<and> (\<forall>j < 5. shadow_ok (clamp_angle a) s s' d' j)"
proof -
  let ?s0 = "s\<lparr>current_angle := clamp_angle a\<rparr>"
  from assms obtain p h d1 where
    p: "end_point (center_x s) (center_y s) (real_of_int (radius s))
          (deg2rad (real (clamp_angle a))) = Some p" and
    hd: "(h, d1) = (case sweep_line s of None \<Rightarrow> lv_line_create d | Some h \<Rightarrow> (h, d))" and
    lp: "shadow_loop (clamp_angle a) 0
           (?s0\<lparr>sweep_line := Some h\<rparr>,
            emit (Line_set_points h [(center_x s, center_y s), p]) d1) = Some (s', d')"
    by (auto simp: lv_radar_sweep_update_def Let_def split: Option.bind_splits prod.splits)
  have d1: "set (calls d) \<subseteq> set (calls d1)"
    using hd by (auto simp: lv_line_create_def emit_def split: option.splits)
  note sp = shadow_loop_spec [OF lp]
  have "\<forall>j < 5. shadow_ok (clamp_angle a) (?s0\<lparr>sweep_line := Some h\<rparr>) s' d' j"
    using sp by simp
  then have sh: "\<forall>j < 5. shadow_ok (clamp_angle a) s s' d' j"
    by (simp add: shadow_ok_def)
  have pts: "Line_set_points h [(center_x s, center_y s), p] \<in> set (calls d')"
    using sp by (auto simp: emit_def)
  have sub: "set (calls d) \<subseteq> set (calls d')"
    using sp d1 by (auto simp: emit_def)
  show ?thesis using sp p pts sh sub by simp
qed

lemma sweep_update_total:
  assumes "\<bar>radius s\<bar> \<le> 32767"
  shows "\<exists>s' d'. lv_radar_sweep_update s a d = Some (s', d')"
proof -
  have r: "\<bar>real_of_int (radius s)\<bar> \<le> 32767" using assms by linarith
  obtain h d1 where
    hd: "(case sweep_line s of None \<Rightarrow> lv_line_create d | Some h \<Rightarrow> (h, d)) = (h, d1)"
    by (cases "case sweep_line s of None \<Rightarrow> lv_line_create d | Some h \<Rightarrow> (h, d)") auto
  let ?s1 = "s\<lparr>current_angle := clamp_angle a, sweep_line := Some h\<rparr>"
  have "\<bar>radius ?s1\<bar> \<le> 32767" using assms by simp
  from shadow_loop_total [OF this] show ?thesis
    by (simp add: lv_radar_sweep_update_def Let_def end_point_Some [OF r] hd)
qed

lemma clamp_angle_le: "clamp_angle a \<le> 180"
  by (simp add: clamp_angle_def)

lemma clamp_angle_idem: "clamp_angle (clamp_angle a) = clamp_angle a"
  by (simp add: clamp_angle_def)

section \<open>The sweep update\<close>

lemma clamp_angle_min: "clamp_angle a = min a 180"
  by (simp add: clamp_angle_def min_def)

text \<open>
  Claim C2. \<open>lv_radar_sweep_update\<close> clamps its angle to at most 180 before anything else:
  updating with an angle gives the same result (state and recorded calls, or the same
  failure) as updating with the clamped angle, so 181 gives what 180 gives. The stored
  \<open>current_angle\<close> is the smaller of the angle and 180: an angle up to 180 is stored as it
  is, a larger one as 180, and so it lies in 0..180. The update is defined for every radius
  of magnitude up to 32767.
\<close>

theorem sweep_update_clamps:
  "lv_radar_sweep_update s a d = lv_radar_sweep_update s (clamp_angle a) d
   \<and> lv_radar_sweep_update s a d = lv_radar_sweep_update s (min a 180) d
   \<and> lv_radar_sweep_update s 181 d = lv_radar_sweep_update s 180 d
   \<and> (\<forall>s' d'. lv_radar_sweep_update s a d = Some (s', d') \<longrightarrow>
          current_angle s' = clamp_angle a \<and> current_angle s' \<le> 180)
   \<and> (\<forall>s' d'. lv_radar_sweep_update s a d = Some (s', d') \<longrightarrow>
          current_angle s' = min a 180
          \<and> (a \<le> 180 \<longrightarrow> current_angle s' = a)
          \<and> (180 < a \<longrightarrow> current_angle s' = 180))
   \<and> (\<bar>radius s\<bar> \<le> 32767 \<longrightarrow> lv_radar_sweep_update s a d \<noteq> None)"
proof -
  have eq: "lv_radar_sweep_update s b d = lv_radar_sweep_update s (clamp_angle b) d" for b
    by (simp add: lv_radar_sweep_update_def clamp_angle_idem)
  have eqm: "lv_radar_sweep_update s a d = lv_radar_sweep_update s (min a 180) d"
    using eq [of a] by (simp add: clamp_angle_min)
  have "clamp_angle 181 = clamp_angle 180" by (simp add: clamp_angle_def)
  then have e181: "lv_radar_sweep_update s 181 d = lv_radar_sweep_update s 180 d"
    using eq [of 181] eq [of 180] by simp
  have cur: "\<forall>s' d'. lv_radar_sweep_update s a d = Some (s', d') \<longrightarrow>
          current_angle s' = clamp_angle a \<and> current_angle s' \<le> 180"
    using sweep_update_spec clamp_angle_le by simp
  have curm: "\<forall>s' d'. lv_radar_sweep_update s a d = Some (s', d') \<longrightarrow>
          current_angle s' = min a 180
          \<and> (a \<le> 180 \<longrightarrow> current_angle s' = a)
          \<and> (180 < a \<longrightarrow> current_angle s' = 180)"
    using cur by (auto simp: clamp_angle_min)
  have tot: "\<bar>radius s\<bar> \<le> 32767 \<longrightarrow> lv_radar_sweep_update s a d \<noteq> None"
    using sweep_update_total [of s a d] by auto
  show ?thesis using eq [of a] eqm e181 cur curm tot by blast
qed

theorem sweep_update_clamps_witness:
  "\<bar>radius sweep0\<bar> \<le> 32767
   \<and> (\<exists>s' d'. lv_radar_sweep_update sweep0 181 display0 = Some (s', d')
         \<and> lv_radar_sweep_update sweep0 180 display0 = Some (s', d')
         \<and> current_angle s' = 180)
   \<and> (\<exists>s' d'. lv_radar_sweep_update sweep0 45 display0 = Some (s', d')
         \<and> (45::nat) \<le> 180 \<and> current_angle s' = 45)
   \<and> (\<exists>s' d'. lv_radar_sweep_update sweep0 0 display0 = Some (s', d')
         \<and> current_angle s' = 0)"
proof -
  have r: "\<bar>radius sweep0\<bar> \<le> 32767" by (simp add: sweep0_def)
  note t = sweep_update_clamps [of sweep0 181 display0]
  from t r have "lv_radar_sweep_update sweep0 181 display0 \<noteq> None" by blast
  then obtain s' d' where
    u: "lv_radar_sweep_update sweep0 181 display0 = Some (s', d')" by fastforce
  with t have "current_angle s' = min 181 180" by blast
  then have c: "current_angle s' = 180" by simp
  from t u have "lv_radar_sweep_update sweep0 180 display0 = Some (s', d')" by metis
  with u c have p1: "\<exists>s' d'. lv_radar_sweep_update sweep0 181 display0 = Some (s', d')
         \<and> lv_radar_sweep_update sweep0 180 display0 = Some (s', d')
         \<and> current_angle s' = 180"
    by blast
  note t45 = sweep_update_clamps [of sweep0 45 display0]
  from t45 r have "lv_radar_sweep_update sweep0 45 display0 \<noteq> None" by blast
  then obtain s2 d2 where
    u2: "lv_radar_sweep_update sweep0 45 display0 = Some (s2, d2)" by fastforce
  have le: "(45::nat) \<le> 180" by simp
  from t45 u2 have "45 \<le> (180::nat) \<longrightarrow> current_angle s2 = 45" by blast
  with le have "current_angle s2 = 45" by blast
  with u2 le have p2: "\<exists>s' d'. lv_radar_sweep_update sweep0 45 display0 = Some (s', d')
         \<and> (45::nat) \<le> 180 \<and> current_angle s' = 45"
    by blast
  note t0 = sweep_update_clamps [of sweep0 0 display0]
  from t0 r have "lv_radar_sweep_update sweep0 0 display0 \<noteq> None" by blast
  then obtain s3 d3 where
    u3: "lv_radar_sweep_update sweep0 0 display0 = Some (s3, d3)" by fastforce
  with t0 have "current_angle s3 = min 0 180" by blast
  then have "current_angle s3 = 0" by simp
  with u3 have p3: "\<exists>s' d'. lv_radar_sweep_update sweep0 0 display0 = Some (s', d')
         \<and> current_angle s' = 0"
    by blast
  show ?thesis using r p1 p2 p3 by blast
qed

lemma shadow_angle_max:
  "shadow_angle a j = max 0 (real_of_int (int a - 8 * (int j + 1)))"
  by (simp add: shadow_angle_def Let_def max_def algebra_simps)

text \<open>
  Claim C3. The angle of shadow \<open>j\<close> is \<open>max 0 (a - 8 * (j + 1))\<close> for the clamped
  sweep angle \<open>a\<close>; for \<open>a = 10\<close> the five shadows have the angles 2, 0, 0, 0, 0; and
  after an update every shadow slot \<open>j < 5\<close> holds a line whose points were set to the
  centre and the transform of the radius at that angle.
\<close>

theorem shadow_angles:
  "(\<forall>j. shadow_angle (clamp_angle a) j
          = max 0 (real_of_int (int (clamp_angle a) - 8 * (int j + 1))))
   \<and> map (shadow_angle 10) [0, 1, 2, 3, 4] = [2, 0, 0, 0, 0]
   \<and> (\<forall>s' d'. lv_radar_sweep_update s a d = Some (s', d') \<longrightarrow>
         (\<forall>j < 5. \<exists>h p.
            shadow_lines s' j = Some h
            \<and> end_point (center_x s) (center_y s) (real_of_int (radius s))
                 (deg2rad (max 0 (real_of_int (int (clamp_angle a) - 8 * (int j + 1))))) = Some p
            \<and> Line_set_points h [(center_x s, center_y s), p] \<in> set (calls d')))"
proof -
  have a: "\<forall>j. shadow_angle (clamp_angle a) j
          = max 0 (real_of_int (int (clamp_angle a) - 8 * (int j + 1)))"
    by (simp add: shadow_angle_max)
  have b: "map (shadow_angle 10) [0, 1, 2, 3, 4] = [2, 0, 0, 0, 0]"
    by (simp add: shadow_angle_def)
  have c: "\<exists>h p. shadow_lines s' j = Some h
            \<and> end_point (center_x s) (center_y s) (real_of_int (radius s))
                 (deg2rad (max 0 (real_of_int (int (clamp_angle a) - 8 * (int j + 1))))) = Some p
            \<and> Line_set_points h [(center_x s, center_y s), p] \<in> set (calls d')"
    if u: "lv_radar_sweep_update s a d = Some (s', d')" and j: "j < 5" for s' d' j
  proof -
    from sweep_update_spec [OF u] j have "shadow_ok (clamp_angle a) s s' d' j" by blast
    then show ?thesis unfolding shadow_ok_def shadow_angle_max by blast
  qed
  show ?thesis using a b c by blast
qed

theorem shadow_angles_witness:
  "\<exists>s' d'. lv_radar_sweep_update sweep0 10 display0 = Some (s', d')
     \<and> (\<exists>h p. shadow_lines s' 0 = Some h
           \<and> end_point 240 320 310 (deg2rad 2) = Some p
           \<and> Line_set_points h [(240, 320), p] \<in> set (calls d'))
     \<and> (\<exists>h p. shadow_lines s' 4 = Some h
           \<and> end_point 240 320 310 (deg2rad 0) = Some p
           \<and> Line_set_points h [(240, 320), p] \<in> set (calls d'))"
proof -
  have "\<bar>radius sweep0\<bar> \<le> 32767" by (simp add: sweep0_def)
  from sweep_update_total [OF this] obtain s' d' where
    u: "lv_radar_sweep_update sweep0 10 display0 = Some (s', d')" by blast
  note t = shadow_angles [of 10 sweep0 display0]
  have c: "clamp_angle 10 = 10" by (simp add: clamp_angle_def)
  from t u have "\<exists>h p. shadow_lines s' 0 = Some h
            \<and> end_point (center_x sweep0) (center_y sweep0) (real_of_int (radius sweep0))
                 (deg2rad (max 0 (real_of_int (int (clamp_angle 10) - 8 * (int 0 + 1))))) = Some p
            \<and> Line_set_points h [(center_x sweep0, center_y sweep0), p] \<in> set (calls d')"
    by (meson zero_less_numeral)
  then have j0: "\<exists>h p. shadow_lines s' 0 = Some h
           \<and> end_point 240 320 310 (deg2rad 2) = Some p
           \<and> Line_set_points h [(240, 320), p] \<in> set (calls d')"
    by (simp add: c sweep0_def)
  have "(4::nat) < 5" by simp
  with t u have "\<exists>h p. shadow_lines s' 4 = Some h
            \<and> end_point (center_x sweep0) (center_y sweep0) (real_of_int (radius sweep0))
                 (deg2rad (max 0 (real_of_int (int (clamp_angle 10) - 8 * (int 4 + 1))))) = Some p
            \<and> Line_set_points h [(center_x sweep0, center_y sweep0), p] \<in> set (calls d')"
    by meson
  then have j4: "\<exists>h p. shadow_lines s' 4 = Some h
           \<and> end_point 240 320 310 (deg2rad 0) = Some p
           \<and> Line_set_points h [(240, 320), p] \<in> set (calls d')"
    by (simp add: c sweep0_def)
  show ?thesis using u j0 j4 by blast
qed

lemma shadow_opacity_val: "j < 5 \<Longrightarrow> int (shadow_opacity j) = 255 - 50 * int j"
  by (simp add: shadow_opacity_def wrap8_def)

text \<open>
  Claim C4. The opacity of shadow \<open>j\<close> is \<open>255 - 50 * j\<close>, that is 255, 205, 155, 105, 55
  for \<open>j = 0 .. 4\<close>: strictly decreasing and not negative (the subtraction does not wrap
  in the \<open>uint8_t\<close>). After an update every shadow slot \<open>j < 5\<close> holds a line that was
  given that opacity.
\<close>

theorem shadow_opacities:
  "map shadow_opacity [0, 1, 2, 3, 4] = [255, 205, 155, 105, 55]
   \<and> (\<forall>j < 5. int (shadow_opacity j) = 255 - 50 * int j)
   \<and> (\<forall>j < 4. shadow_opacity (j + 1) < shadow_opacity j)
   \<and> (\<forall>s' d'. lv_radar_sweep_update s a d = Some (s', d') \<longrightarrow>
         (\<forall>j < 5. \<exists>h. shadow_lines s' j = Some h
                     \<and> Set_line_opa h (255 - 50 * j) \<in> set (calls d')))"
proof -
  have a: "map shadow_opacity [0, 1, 2, 3, 4] = [255, 205, 155, 105, 55]"
    by (simp add: shadow_opacity_def wrap8_def)
  have b: "\<forall>j < 5. int (shadow_opacity j) = 255 - 50 * int j"
    using shadow_opacity_val by blast
  have c: "\<forall>j < 4. shadow_opacity (j + 1) < shadow_opacity j"
  proof (intro allI impI)
    fix j :: nat assume "j < 4"
    then have "int (shadow_opacity (j + 1)) = 255 - 50 * int (j + 1)"
      and "int (shadow_opacity j) = 255 - 50 * int j"
      by (simp_all add: shadow_opacity_val)
    then have "int (shadow_opacity (j + 1)) < int (shadow_opacity j)" by simp
    then show "shadow_opacity (j + 1) < shadow_opacity j" by (simp only: of_nat_less_iff)
  qed
  have d: "\<exists>h. shadow_lines s' j = Some h \<and> Set_line_opa h (255 - 50 * j) \<in> set (calls d')"
    if u: "lv_radar_sweep_update s a d = Some (s', d')" and j: "j < 5" for s' d' j
  proof -
    from sweep_update_spec [OF u] j have "shadow_ok (clamp_angle a) s s' d' j" by blast
    moreover have "shadow_opacity j = 255 - 50 * j"
      using shadow_opacity_val [OF j] j by linarith
    ultimately show ?thesis unfolding shadow_ok_def by auto
  qed
  show ?thesis using a b c d by blast
qed

theorem shadow_opacities_witness:
  "\<exists>s' d'. lv_radar_sweep_update sweep0 90 display0 = Some (s', d')
     \<and> (\<exists>h. shadow_lines s' 4 = Some h \<and> Set_line_opa h 55 \<in> set (calls d'))"
proof -
  have "\<bar>radius sweep0\<bar> \<le> 32767" by (simp add: sweep0_def)
  from sweep_update_total [OF this] obtain s' d' where
    u: "lv_radar_sweep_update sweep0 90 display0 = Some (s', d')" by blast
  have "(4::nat) < 5" by simp
  with shadow_opacities [of sweep0 90 display0] u
  have "\<exists>h. shadow_lines s' 4 = Some h \<and> Set_line_opa h (255 - 50 * 4) \<in> set (calls d')"
    by meson
  then have "\<exists>h. shadow_lines s' 4 = Some h \<and> Set_line_opa h 55 \<in> set (calls d')"
    by simp
  with u show ?thesis by blast
qed

section \<open>The transform at 0, 90 and 180 degrees\<close>
lemma wrap16_id: "- 32768 \<le> x \<Longrightarrow> x \<le> 32767 \<Longrightarrow> wrap16 x = x"
  by (simp add: wrap16_def)

lemma c_trunc_0 [simp]: "c_trunc 0 = 0"
  by (simp add: c_trunc_def)

lemma deg2rad_0: "deg2rad 0 = 0"
  by (simp add: deg2rad_def)

lemma deg2rad_90: "deg2rad 90 = pi / 2"
  by (simp add: deg2rad_def M_PI_def)

lemma deg2rad_180: "deg2rad 180 = pi"
  by (simp add: deg2rad_def M_PI_def)

text \<open>
  Claim C1, amended. For a radius \<open>0 < r\<close> and an origin such that \<open>cx - r\<close>, \<open>cx + r\<close>,
  \<open>cy - r\<close> and \<open>cy\<close> are \<open>int16_t\<close> values, the transform of the full radius gives
  the rightmost point \<open>(cx + r, cy)\<close> at 0 degrees, the topmost point \<open>(cx, cy - r)\<close> at
  90 degrees and the leftmost point \<open>(cx - r, cy)\<close> at 180 degrees, each coordinate exact
  and so within one pixel.
\<close>

theorem end_point_cardinal:
  assumes "0 < r" and "r \<le> 32767"
    and "- 32768 \<le> cx - r" and "cx + r \<le> 32767"
    and "- 32768 \<le> cy - r" and "cy \<le> 32767"
  shows "end_point cx cy (real_of_int r) (deg2rad 0) = Some (cx + r, cy)
       \<and> end_point cx cy (real_of_int r) (deg2rad 90) = Some (cx, cy - r)
       \<and> end_point cx cy (real_of_int r) (deg2rad 180) = Some (cx - r, cy)"
proof -
  have len: "\<bar>real_of_int r\<bar> \<le> 32767" using assms by linarith
  have m: "c_trunc (- real_of_int r) = - r"
    using c_trunc_of_int [of "- r"] by simp
  have w: "wrap16 (cx + r) = cx + r" "wrap16 cy = cy" "wrap16 cx = cx"
    "wrap16 (cy - r) = cy - r" "wrap16 (cx - r) = cx - r"
    using assms by (simp_all add: wrap16_id)
  have a: "end_point cx cy (real_of_int r) (deg2rad 0) = Some (cx + r, cy)"
    by (simp add: end_point_Some [OF len] deg2rad_0 w)
  have b: "end_point cx cy (real_of_int r) (deg2rad 90) = Some (cx, cy - r)"
    by (simp add: end_point_Some [OF len] deg2rad_90 w)
  have c: "end_point cx cy (real_of_int r) (deg2rad 180) = Some (cx - r, cy)"
    by (simp add: end_point_Some [OF len] deg2rad_180 m w)
  show ?thesis using a b c by simp
qed

theorem end_point_cardinal_witness:
  "end_point 240 320 (real_of_int 310) (deg2rad 0) = Some (240 + 310, 320)
   \<and> end_point 240 320 (real_of_int 310) (deg2rad 90) = Some (240, 320 - 310)
   \<and> end_point 240 320 (real_of_int 310) (deg2rad 180) = Some (240 - 310, 320)"
  using end_point_cardinal [of 310 240 320] by simp

text \<open>
  Without the range condition the claim fails: the coordinates are \<open>int16_t\<close>, and for
  the origin \<open>cx = 32767\<close> with radius 100 the rightmost point \<open>cx + r = 32867\<close> is not
  an \<open>int16_t\<close> value. The stored \<open>end_x\<close> is 32867 reduced modulo \<open>2^16\<close>.
\<close>

theorem end_point_overflow:
  "end_point 32767 320 (real_of_int 100) (deg2rad 0) = Some (- 32669, 320)
   \<and> \<not> \<bar>(- 32669) - (32767 + 100)\<bar> \<le> (1::int)"
proof -
  have "end_point 32767 320 (real_of_int 100) 0 = Some (wrap16 (32767 + 100), wrap16 320)"
    using c_trunc_of_int [of 100] by (simp add: end_point_Some)
  then show ?thesis
    by (simp add: deg2rad_0 wrap16_def)
qed

section \<open>Deleting the sweep\<close>
lemma delete_shadows_calls:
  "i \<le> 5 \<Longrightarrow>
     calls (delete_shadows i s d)
       = calls d @ map Obj_del (List.map_filter (shadow_lines s) [i..<5])
     \<and> next_handle (delete_shadows i s d) = next_handle d"
proof (induction i s d rule: delete_shadows.induct)
  case (1 i s d)
  show ?case
  proof (cases "i < 5")
    case False
    with "1.prems" have "i = 5" by simp
    then show ?thesis by (simp add: delete_shadows.simps [of 5] List.map_filter_simps)
  next
    case True
    then have upt: "[i..<5] = i # [i + 1..<5]" by (simp add: upt_conv_Cons)
    from True have "i + 1 \<le> 5" by simp
    note ih = "1.IH" [OF True this]
    show ?thesis
      using True ih
      by (simp add: delete_shadows.simps [of i] upt List.map_filter_simps emit_def
               split: option.splits)
  qed
qed

lemma map_filter_map: "List.map_filter g (map f xs) = List.map_filter (\<lambda>x. g (f x)) xs"
  by (induction xs) (simp_all add: List.map_filter_simps split: option.splits)

text \<open>
  Claim C9. \<open>lv_radar_sweep_delete\<close> on the \<open>NULL\<close> pointer does nothing. On a sweep it
  deletes the sweep line and then the shadow lines 0 to 4, each only when its handle is not
  \<open>NULL\<close>, and frees the structure last; it makes no other call. A sweep with some or
  all handles still \<open>NULL\<close> is covered: those handles are skipped.
\<close>

theorem sweep_delete_releases:
  "lv_radar_sweep_delete None d = d
   \<and> calls (lv_radar_sweep_delete (Some s) d)
       = calls d
         @ map Obj_del (List.map_filter (\<lambda>x. x) (sweep_line s # map (shadow_lines s) [0..<5]))
         @ [Free_sweep]
   \<and> next_handle (lv_radar_sweep_delete (Some s) d) = next_handle d"
proof -
  have mf: "List.map_filter (\<lambda>x. x) (map (shadow_lines s) [0..<5])
              = List.map_filter (shadow_lines s) [0..<5]"
    by (rule map_filter_map)
  have "(0::nat) \<le> 5" by simp
  note ds = delete_shadows_calls [OF this]
  show ?thesis
    by (cases "sweep_line s")
       (simp_all add: lv_radar_sweep_delete_def Let_def ds emit_def
          List.map_filter_simps mf del: upt.simps map_eq_conv)
qed

section \<open>Removing markers\<close>

lemma remove_loop_spec:
  "i \<le> marker_count \<Longrightarrow> marker_count \<le> length ms \<Longrightarrow>
     \<exists>ms' d'. remove_markers_loop marker_count i (ms, d) = Some (ms', d')
       \<and> length ms' = length ms
       \<and> (\<forall>k < length ms.
             icon (ms' ! k) = (if i \<le> k \<and> k < marker_count then None else icon (ms ! k))
             \<and> distance (ms' ! k) = distance (ms ! k) \<and> angle (ms' ! k) = angle (ms ! k))
       \<and> (\<forall>k. marker_count \<le> k \<longrightarrow> ms' ! k = ms ! k)
       \<and> calls d' = calls d @ map Obj_del (List.map_filter icon (drop i (take marker_count ms)))
       \<and> next_handle d' = next_handle d"
proof (induction marker_count i "(ms, d)" arbitrary: ms d rule: remove_markers_loop.induct)
  case (1 marker_count i ms d)
  show ?case
  proof (cases "i < marker_count")
    case False
    with "1.prems" have "i = marker_count" by simp
    then show ?thesis
      by (auto simp: remove_markers_loop.simps [of marker_count marker_count] List.map_filter_simps)
  next
    case True
    with "1.prems" have il: "i < length ms" by simp
    have dr: "drop i (take marker_count ms) = ms ! i # drop (i + 1) (take marker_count ms)"
    proof -
      have "i < length (take marker_count ms)" using True il by simp
      from Cons_nth_drop_Suc [OF this] True show ?thesis by simp
    qed
    from True have le: "i + 1 \<le> marker_count" by simp
    show ?thesis
    proof (cases "icon (ms ! i)")
      case None
      from "1.hyps"(1) [OF True refl il None le "1.prems"(2)]
      obtain ms' d' where
        r: "remove_markers_loop marker_count (i + 1) (ms, d) = Some (ms', d')" and
        l: "length ms' = length ms" and
        pt: "\<forall>k < length ms.
             icon (ms' ! k) = (if i + 1 \<le> k \<and> k < marker_count then None else icon (ms ! k))
             \<and> distance (ms' ! k) = distance (ms ! k) \<and> angle (ms' ! k) = angle (ms ! k)" and
        ab: "\<forall>k. marker_count \<le> k \<longrightarrow> ms' ! k = ms ! k" and
        c: "calls d' = calls d @ map Obj_del (List.map_filter icon (drop (i + 1) (take marker_count ms)))" and
        n: "next_handle d' = next_handle d"
        by blast
      have r': "remove_markers_loop marker_count i (ms, d) = Some (ms', d')"
        using True il None r by (simp add: remove_markers_loop.simps [of marker_count i])
      have pt': "\<forall>k < length ms.
             icon (ms' ! k) = (if i \<le> k \<and> k < marker_count then None else icon (ms ! k))
             \<and> distance (ms' ! k) = distance (ms ! k) \<and> angle (ms' ! k) = angle (ms ! k)"
      proof (intro allI impI)
        fix k assume k: "k < length ms"
        show "icon (ms' ! k) = (if i \<le> k \<and> k < marker_count then None else icon (ms ! k))
             \<and> distance (ms' ! k) = distance (ms ! k) \<and> angle (ms' ! k) = angle (ms ! k)"
        proof (cases "k = i")
          case True
          with pt k None show ?thesis by auto
        next
          case False
          with pt k show ?thesis by auto
        qed
      qed
      have c': "calls d' = calls d @ map Obj_del (List.map_filter icon (drop i (take marker_count ms)))"
        using c None by (simp add: dr List.map_filter_simps)
      show ?thesis using r' l pt' ab c' n by blast
    next
      case (Some h)
      let ?ms1 = "ms[i := (ms ! i)\<lparr>icon := None\<rparr>]"
      have l1: "marker_count \<le> length ?ms1" using "1.prems"(2) by simp
      from "1.hyps"(2) [OF True refl il Some le l1]
      obtain ms' d' where
        r: "remove_markers_loop marker_count (i + 1) (?ms1, emit (Obj_del h) d) = Some (ms', d')" and
        l: "length ms' = length ?ms1" and
        pt: "\<forall>k < length ?ms1.
             icon (ms' ! k) = (if i + 1 \<le> k \<and> k < marker_count then None else icon (?ms1 ! k))
             \<and> distance (ms' ! k) = distance (?ms1 ! k) \<and> angle (ms' ! k) = angle (?ms1 ! k)" and
        ab: "\<forall>k. marker_count \<le> k \<longrightarrow> ms' ! k = ?ms1 ! k" and
        c: "calls d' = calls (emit (Obj_del h) d)
               @ map Obj_del (List.map_filter icon (drop (i + 1) (take marker_count ?ms1)))" and
        n: "next_handle d' = next_handle (emit (Obj_del h) d)"
        by blast
      have r': "remove_markers_loop marker_count i (ms, d) = Some (ms', d')"
        using True il Some r by (simp add: remove_markers_loop.simps [of marker_count i])
      have pt': "\<forall>k < length ms.
             icon (ms' ! k) = (if i \<le> k \<and> k < marker_count then None else icon (ms ! k))
             \<and> distance (ms' ! k) = distance (ms ! k) \<and> angle (ms' ! k) = angle (ms ! k)"
      proof (intro allI impI)
        fix k assume k: "k < length ms"
        show "icon (ms' ! k) = (if i \<le> k \<and> k < marker_count then None else icon (ms ! k))
             \<and> distance (ms' ! k) = distance (ms ! k) \<and> angle (ms' ! k) = angle (ms ! k)"
        proof (cases "k = i")
          case True
          with pt k il \<open>i < marker_count\<close> show ?thesis by auto
        next
          case False
          with pt k show ?thesis by auto
        qed
      qed
      have ab': "\<forall>k. marker_count \<le> k \<longrightarrow> ms' ! k = ms ! k"
        using ab True by auto
      have "drop (i + 1) (take marker_count ?ms1) = drop (i + 1) (take marker_count ms)"
        by (simp add: take_update_swap drop_update_cancel del: drop_Suc)
      then have c': "calls d' = calls d @ map Obj_del (List.map_filter icon (drop i (take marker_count ms)))"
        using c Some by (simp add: dr List.map_filter_simps emit_def)
      have n': "next_handle d' = next_handle d" using n by (simp add: emit_def)
      show ?thesis using r' l pt' ab' c' n' by auto
    qed
  qed
qed

lemma remove_loop_noop:
  "marker_count \<le> length ms \<Longrightarrow> \<forall>k < marker_count. icon (ms ! k) = None \<Longrightarrow>
     remove_markers_loop marker_count i (ms, d) = Some (ms, d)"
proof (induction marker_count i "(ms, d)" arbitrary: ms d rule: remove_markers_loop.induct)
  case (1 marker_count i ms d)
  show ?case
  proof (cases "i < marker_count")
    case False
    then show ?thesis by (simp add: remove_markers_loop.simps [of marker_count i])
  next
    case True
    with "1.prems" have il: "i < length ms" and ni: "icon (ms ! i) = None" by simp_all
    from "1.hyps"(1) [OF True refl il ni "1.prems"]
    show ?thesis using True il ni by (simp add: remove_markers_loop.simps [of marker_count i])
  qed
qed


text \<open>
  Claim C10. For a count within the array, \<open>lv_radar_remove_markers\<close> deletes exactly the
  icons of the slots below the count that are not \<open>NULL\<close>, in order, and leaves each of
  those slots with a \<open>NULL\<close> icon; slots from the count on are untouched. A second call on
  the resulting array makes no call at all and changes nothing, so no handle is deleted again.
\<close>

theorem remove_markers_idempotent:
  assumes "marker_count \<le> length ms"
  shows "\<exists>ms' d'. lv_radar_remove_markers ms marker_count d = Some (ms', d')
     \<and> calls d' = calls d @ map Obj_del (List.map_filter icon (take marker_count ms))
     \<and> length ms' = length ms
     \<and> (\<forall>k < marker_count. icon (ms' ! k) = None)
     \<and> (\<forall>k. marker_count \<le> k \<longrightarrow> ms' ! k = ms ! k)
     \<and> lv_radar_remove_markers ms' marker_count d' = Some (ms', d')"
proof -
  have "0 \<le> marker_count" by simp
  from remove_loop_spec [OF this assms, of d] obtain ms' d' where
    r: "remove_markers_loop marker_count 0 (ms, d) = Some (ms', d')" and
    l: "length ms' = length ms" and
    pt: "\<forall>k < length ms.
             icon (ms' ! k) = (if 0 \<le> k \<and> k < marker_count then None else icon (ms ! k))
             \<and> distance (ms' ! k) = distance (ms ! k) \<and> angle (ms' ! k) = angle (ms ! k)" and
    ab: "\<forall>k. marker_count \<le> k \<longrightarrow> ms' ! k = ms ! k" and
    c: "calls d' = calls d @ map Obj_del (List.map_filter icon (drop 0 (take marker_count ms)))"
    by blast
  have nul: "\<forall>k < marker_count. icon (ms' ! k) = None"
    using pt assms by auto
  have "marker_count \<le> length ms'" using l assms by simp
  from remove_loop_noop [OF this nul]
  have again: "lv_radar_remove_markers ms' marker_count d' = Some (ms', d')"
    by (simp add: lv_radar_remove_markers_def)
  show ?thesis
    using r l nul ab c again by (simp add: lv_radar_remove_markers_def)
qed

theorem remove_markers_idempotent_witness:
  "2 \<le> length markers0
   \<and> (\<exists>ms' d'. lv_radar_remove_markers markers0 2 display0 = Some (ms', d')
         \<and> calls d' = [Obj_del 7]
         \<and> (\<forall>k < 2. icon (ms' ! k) = None)
         \<and> lv_radar_remove_markers ms' 2 d' = Some (ms', d'))"
proof -
  have l: "2 \<le> length markers0" by (simp add: markers0_def)
  have "List.map_filter icon (take 2 markers0) = [7]"
    by (simp add: markers0_def List.map_filter_simps)
  with remove_markers_idempotent [OF l, of display0] l show ?thesis
    by (auto simp: display0_def)
qed

section \<open>Marker positions\<close>

lemma sqrt2_lower: "1414213 / 1000000 < sqrt 2"
  by (rule real_less_rsqrt) (simp add: power2_eq_square)

lemma sqrt2_upper: "sqrt 2 < 1414214 / 1000000"
  by (rule real_less_lsqrt) (simp_all add: power2_eq_square)

lemma deg2rad_45: "deg2rad 45 = pi / 4"
  by (simp add: deg2rad_def M_PI_def)

lemma c_trunc_between: "real_of_int n \<le> v \<Longrightarrow> v < real_of_int n + 1 \<Longrightarrow> 0 \<le> n \<Longrightarrow> c_trunc v = n"
  unfolding c_trunc_def by (simp add: floor_unique)

lemma meters_per_pixel_310: "meters_per_pixel 310 4 = Fin (8 / 310)"
  by (simp add: meters_per_pixel_def xdiv_def)

lemma trunc_2500: "c_trunc (96875 * (sqrt 2 / 2)) = 68500"
proof (rule c_trunc_between)
  show "real_of_int 68500 \<le> 96875 * (sqrt 2 / 2)" using sqrt2_lower by simp
  show "96875 * (sqrt 2 / 2) < real_of_int 68500 + 1" using sqrt2_upper by simp
qed simp

lemma trunc_2_5: "c_trunc (775 / 8 * (sqrt 2 / 2)) = 68"
proof (rule c_trunc_between)
  show "real_of_int 68 \<le> 775 / 8 * (sqrt 2 / 2)" using sqrt2_lower by simp
  show "775 / 8 * (sqrt 2 / 2) < real_of_int 68 + 1" using sqrt2_upper by simp
qed simp

lemma trunc_8: "c_trunc (310 * (sqrt 2 / 2)) = 219"
proof (rule c_trunc_between)
  show "real_of_int 219 \<le> 310 * (sqrt 2 / 2)" using sqrt2_lower by simp
  show "310 * (sqrt 2 / 2) < real_of_int 219 + 1" using sqrt2_upper by simp
qed simp

lemma add_markers_loop_stop:
  "marker_count \<le> i \<Longrightarrow> add_markers_loop cx cy mpp marker_count i md = Some md"
  by (simp add: add_markers_loop.simps [of cx cy mpp marker_count i])

lemma update_markers_loop_stop:
  "marker_count \<le> i \<Longrightarrow> update_markers_loop cx cy mpp marker_count i ms d = Some d"
  by (simp add: update_markers_loop.simps [of cx cy mpp marker_count i])

text \<open>
  The scenario of claim C6 as stated. With radius 310 and 4 bands the scale is \<open>8 / 310\<close>
  meters per pixel, and the distance field is in meters. A distance of 2500 is 96875
  pixels; its x offset at 45 degrees truncates to 68500, not to about 219, and is beyond
  \<open>int16_t\<close>, so the conversion in the transform is undefined.
\<close>

theorem marker_2500_out_of_range:
  "meters_per_pixel 310 4 = Fin (8 / 310)
   \<and> c_trunc (distance target_2500 / (8 / 310) * cosf (deg2rad (real (angle target_2500)))) = 68500
   \<and> marker_xy 240 320 (Fin (8 / 310)) target_2500 = None
   \<and> lv_radar_add_markers 240 320 310 4 [target_2500] 1 display0 = None"
proof -
  have "c_trunc (distance target_2500 / (8 / 310) * cosf (deg2rad (real (angle target_2500)))) = 68500"
    using trunc_2500 by (simp add: target_2500_def deg2rad_45 cosf_def cos_45)
  moreover have "marker_xy 240 320 (Fin (8 / 310)) target_2500 = None"
    using trunc_2500
    by (simp add: marker_xy_def pixel_distance_def xdiv_def end_point_def f2i16_def target_2500_def
          deg2rad_45 cosf_def sinf_def cos_45 sin_45)
  ultimately show ?thesis using meters_per_pixel_310
    by (simp add: lv_radar_add_markers_def add_markers_loop.simps [of _ _ _ _ 0])
qed

text \<open>
  Claim C6, amended. With radius 310 and 4 bands, a target 2.5 meters (2500 mm) away at
  45 degrees is placed at the offset \<open>(+68, -68)\<close> from the origin \<open>(240, 320)\<close>, right of
  and above it on the screen; its icon is created and positioned 8 pixels up and left of
  that point. The offset \<open>(+219, -219)\<close> is that of a target at the full range of 8 meters.
\<close>

theorem marker_45_degrees:
  "meters_per_pixel 310 4 = Fin (8 / 310)
   \<and> marker_xy 240 320 (Fin (8 / 310)) target_2_5 = Some (240 + 68, 320 - 68)
   \<and> marker_xy 240 320 (Fin (8 / 310)) target_8 = Some (240 + 219, 320 - 219)
   \<and> lv_radar_add_markers 240 320 310 4 [target_2_5] 1 display0
       = Some ([target_2_5\<lparr>icon := Some 0\<rparr>],
               \<lparr>next_handle = 1, calls = [Label_create 0, Set_pos 0 (240 + 68 - 8) (320 - 68 - 8)]\<rparr>)"
proof -
  have a: "marker_xy 240 320 (Fin (8 / 310)) target_2_5 = Some (240 + 68, 320 - 68)"
    using trunc_2_5
    by (simp add: marker_xy_def pixel_distance_def xdiv_def end_point_def f2i16_def target_2_5_def
          deg2rad_45 cosf_def sinf_def cos_45 sin_45 wrap16_def)
  have b: "marker_xy 240 320 (Fin (8 / 310)) target_8 = Some (240 + 219, 320 - 219)"
    using trunc_8
    by (simp add: marker_xy_def pixel_distance_def xdiv_def end_point_def f2i16_def target_8_def
          deg2rad_45 cosf_def sinf_def cos_45 sin_45 wrap16_def)
  have c: "lv_radar_add_markers 240 320 310 4 [target_2_5] 1 display0
       = Some ([target_2_5\<lparr>icon := Some 0\<rparr>],
               \<lparr>next_handle = 1, calls = [Label_create 0, Set_pos 0 (240 + 68 - 8) (320 - 68 - 8)]\<rparr>)"
    using a meters_per_pixel_310
    by (simp add: lv_radar_add_markers_def add_markers_loop.simps [of _ _ _ _ 0]
          add_markers_loop_stop lv_label_create_def emit_def display0_def)
  show ?thesis using a b c meters_per_pixel_310 by simp
qed

section \<open>Adding and updating markers\<close>

lemma marker_xy_east:
  "marker_xy 240 320 (Fin (8 / 310)) (marker_east\<lparr>icon := ic\<rparr>) = Some (317, 320)"
proof -
  have "c_trunc (155 / 2) = 77" by (simp add: c_trunc_def)
  then show ?thesis
    by (simp add: marker_xy_def pixel_distance_def xdiv_def end_point_def f2i16_def marker_east_def
          deg2rad_def cosf_def sinf_def wrap16_def)
qed

lemma update_loop_emits:
  "update_markers_loop cx cy mpp n i ms d = Some d' \<Longrightarrow>
     \<exists>cs. d' = d\<lparr>calls := calls d @ cs\<rparr>
       \<and> (\<forall>c \<in> set cs. \<exists>h x y. c = Set_pos h x y)
       \<and> (\<forall>d2. update_markers_loop cx cy mpp n i ms d2 = Some (d2\<lparr>calls := calls d2 @ cs\<rparr>))"
proof (induction cx cy mpp n i ms d rule: update_markers_loop.induct)
  case (1 cx cy mpp n i ms d)
  show ?case
  proof (cases "i < n")
    case False
    then have "update_markers_loop cx cy mpp n i ms e = Some e" for e
      by (simp add: update_markers_loop_stop)
    with "1.prems" have "d' = d\<lparr>calls := calls d @ []\<rparr>"
      and "\<forall>d2. update_markers_loop cx cy mpp n i ms d2 = Some (d2\<lparr>calls := calls d2 @ []\<rparr>)"
      by simp_all
    then show ?thesis by (metis empty_iff empty_set)
  next
    case True
    with "1.prems" obtain x y h where
      il: "i < length ms" and
      xy: "marker_xy cx cy mpp (ms ! i) = Some (x, y)" and
      ic: "icon (ms ! i) = Some h" and
      rec: "update_markers_loop cx cy mpp n (i + 1) ms (emit (Set_pos h (x - 8) (y - 8)) d) = Some d'"
      by (auto simp: update_markers_loop.simps [of cx cy mpp n i]
               split: if_splits option.splits prod.splits)
    from "1.IH" [OF True il xy refl ic rec] obtain cs where
      d': "d' = (emit (Set_pos h (x - 8) (y - 8)) d)\<lparr>calls := calls (emit (Set_pos h (x - 8) (y - 8)) d) @ cs\<rparr>" and
      sp: "\<forall>c \<in> set cs. \<exists>h x y. c = Set_pos h x y" and
      ind: "\<forall>d2. update_markers_loop cx cy mpp n (i + 1) ms d2 = Some (d2\<lparr>calls := calls d2 @ cs\<rparr>)"
      by blast
    let ?cs = "Set_pos h (x - 8) (y - 8) # cs"
    have a: "d' = d\<lparr>calls := calls d @ ?cs\<rparr>" using d' by (simp add: emit_def)
    have b: "\<forall>c \<in> set ?cs. \<exists>h x y. c = Set_pos h x y" using sp by simp
    have c: "update_markers_loop cx cy mpp n i ms d2 = Some (d2\<lparr>calls := calls d2 @ ?cs\<rparr>)" for d2
      using True il xy ic ind
      by (simp add: update_markers_loop.simps [of cx cy mpp n i] emit_def)
    show ?thesis using a b c by blast
  qed
qed

lemma add_loop_creates:
  "add_markers_loop cx cy mpp n i (ms, d) = Some (ms', d') \<Longrightarrow>
     length (filter is_create (calls d')) = length (filter is_create (calls d)) + (n - i)"
proof (induction cx cy mpp n i "(ms, d)" arbitrary: ms d rule: add_markers_loop.induct)
  case (1 cx cy mpp n i ms d)
  show ?case
  proof (cases "i < n")
    case False
    with "1.prems" show ?thesis by (simp add: add_markers_loop_stop)
  next
    case True
    with "1.prems" obtain x y h d1 where
      il: "i < length ms" and
      xy: "marker_xy cx cy mpp (ms ! i) = Some (x, y)" and
      cr: "lv_label_create d = (h, d1)" and
      rec: "add_markers_loop cx cy mpp n (i + 1)
              (ms[i := (ms ! i)\<lparr>icon := Some h\<rparr>], emit (Set_pos h (x - 8) (y - 8)) d1) = Some (ms', d')"
      by (auto simp: add_markers_loop.simps [of cx cy mpp n i]
               split: if_splits option.splits prod.splits)
    note ih = "1.hyps" [OF True refl il xy refl cr [symmetric] rec]
    have "length (filter is_create (calls (emit (Set_pos h (x - 8) (y - 8)) d1)))
            = length (filter is_create (calls d)) + 1"
      using cr by (auto simp: lv_label_create_def emit_def)
    with ih True show ?thesis by simp
  qed
qed


text \<open>
  Claim C7 as stated fails. \<open>lv_radar_add_markers\<close> creates a label for every slot on every
  call: adding the same one-marker list twice leaves two icons on the surface, and the
  first handle is overwritten in the slot. Neither marker function clears anything when it
  is given zero markers: the icon stays.
\<close>

theorem add_markers_twice_duplicates:
  "lv_radar_add_markers 240 320 310 4 [marker_east] 1 display0
     = Some ([marker_east\<lparr>icon := Some 0\<rparr>], display1)
   \<and> lv_radar_add_markers 240 320 310 4 [marker_east\<lparr>icon := Some 0\<rparr>] 1 display1
     = Some ([marker_east\<lparr>icon := Some 1\<rparr>],
             \<lparr>next_handle = 2,
              calls = [Label_create 0, Set_pos 0 309 312, Label_create 1, Set_pos 1 309 312]\<rparr>)
   \<and> lv_radar_add_markers 240 320 310 4 [] 0 display1 = Some ([], display1)
   \<and> lv_radar_update_markers 240 320 310 4 [] 0 display1 = Some display1"
proof -
  have a: "lv_radar_add_markers 240 320 310 4 [marker_east] 1 display0
     = Some ([marker_east\<lparr>icon := Some 0\<rparr>], display1)"
    using marker_xy_east [of None] meters_per_pixel_310
    by (simp add: lv_radar_add_markers_def add_markers_loop.simps [of _ _ _ _ 0]
          add_markers_loop_stop lv_label_create_def emit_def display0_def display1_def
          marker_east_def)
  have b: "lv_radar_add_markers 240 320 310 4 [marker_east\<lparr>icon := Some 0\<rparr>] 1 display1
     = Some ([marker_east\<lparr>icon := Some 1\<rparr>],
             \<lparr>next_handle = 2,
              calls = [Label_create 0, Set_pos 0 309 312, Label_create 1, Set_pos 1 309 312]\<rparr>)"
    using marker_xy_east [of "Some 0"] meters_per_pixel_310
    by (simp add: lv_radar_add_markers_def add_markers_loop.simps [of _ _ _ _ 0]
          add_markers_loop_stop lv_label_create_def emit_def display1_def)
  have c: "lv_radar_add_markers 240 320 310 4 [] 0 display1 = Some ([], display1)"
    using meters_per_pixel_310 by (simp add: lv_radar_add_markers_def add_markers_loop_stop)
  have d: "lv_radar_update_markers 240 320 310 4 [] 0 display1 = Some display1"
    using meters_per_pixel_310 by (simp add: lv_radar_update_markers_def update_markers_loop_stop)
  show ?thesis using a b c d by simp
qed

lemma add_loop_emits:
  "add_markers_loop cx cy mpp n i (ms, d) = Some (ms', d') \<Longrightarrow>
     \<exists>cs. calls d' = calls d @ cs
       \<and> (\<forall>c \<in> set cs. (\<exists>h. c = Label_create h) \<or> (\<exists>h x y. c = Set_pos h x y))"
proof (induction cx cy mpp n i "(ms, d)" arbitrary: ms d rule: add_markers_loop.induct)
  case (1 cx cy mpp n i ms d)
  show ?case
  proof (cases "i < n")
    case False
    with "1.prems" have "calls d' = calls d @ []" by (simp add: add_markers_loop_stop)
    then show ?thesis by (metis empty_iff empty_set)
  next
    case True
    with "1.prems" obtain x y h d1 where
      il: "i < length ms" and
      xy: "marker_xy cx cy mpp (ms ! i) = Some (x, y)" and
      cr: "lv_label_create d = (h, d1)" and
      rec: "add_markers_loop cx cy mpp n (i + 1)
              (ms[i := (ms ! i)\<lparr>icon := Some h\<rparr>], emit (Set_pos h (x - 8) (y - 8)) d1) = Some (ms', d')"
      by (auto simp: add_markers_loop.simps [of cx cy mpp n i]
               split: if_splits option.splits prod.splits)
    let ?c = "Set_pos h (x - 8) (y - 8)"
    from "1.hyps" [OF True refl il xy refl cr [symmetric] rec] obtain cs where
      c: "calls d' = calls (emit ?c d1) @ cs" and
      sh: "\<forall>c \<in> set cs. (\<exists>h. c = Label_create h) \<or> (\<exists>h x y. c = Set_pos h x y)"
      by blast
    let ?cs = "[Label_create h, ?c] @ cs"
    have a: "calls d' = calls d @ ?cs"
      using c cr by (auto simp: lv_label_create_def emit_def)
    have b: "\<forall>c \<in> set ?cs. (\<exists>h. c = Label_create h) \<or> (\<exists>h x y. c = Set_pos h x y)"
      using sh by auto
    show ?thesis using a b by blast
  qed
qed

text \<open>
  With a radius of 0 the scale is an infinity and every pixel distance is 0: the marker
  functions still return, and the icon is centred on the origin.
\<close>

lemma add_markers_zero_radius:
  "lv_radar_add_markers 240 10 0 4 [marker_east] 1 display0
     = Some ([marker_east\<lparr>icon := Some 0\<rparr>],
             \<lparr>next_handle = 1, calls = [Label_create 0, Set_pos 0 (240 - 8) (10 - 8)]\<rparr>)"
proof -
  have "marker_xy 240 10 Infty marker_east = Some (240, 10)"
    by (simp add: marker_xy_def pixel_distance_def end_point_def f2i16_def wrap16_def)
  moreover have "meters_per_pixel 0 4 = Infty"
    by (simp add: meters_per_pixel_def xdiv_def)
  ultimately show ?thesis
    by (simp add: lv_radar_add_markers_def add_markers_loop.simps [of _ _ _ _ 0]
          add_markers_loop_stop lv_label_create_def emit_def display0_def marker_east_def)
qed

text \<open>
  Claim C7, amended. Repositioning is idempotent: when \<open>lv_radar_update_markers\<close> succeeds
  it only makes \<open>lv_obj_set_pos\<close> calls, creates nothing, and a second call with the same
  array repeats exactly the same calls, so every marker keeps its pixel position.
  \<open>lv_radar_add_markers\<close> only creates labels and positions them, one new icon for every
  slot on every call. Neither function deletes anything, and with zero markers both make no
  call and change nothing, whatever the radius and the band count.
\<close>

theorem update_markers_repeat:
  "(\<forall>d'. lv_radar_update_markers cx cy r b ms n d = Some d' \<longrightarrow>
       (\<exists>cs. d' = d\<lparr>calls := calls d @ cs\<rparr>
          \<and> (\<forall>c \<in> set cs. \<exists>h x y. c = Set_pos h x y)
          \<and> lv_radar_update_markers cx cy r b ms n d' = Some (d'\<lparr>calls := calls d' @ cs\<rparr>)))
   \<and> (\<forall>ms' d'. lv_radar_add_markers cx cy r b ms n d = Some (ms', d') \<longrightarrow>
         length (filter is_create (calls d')) = length (filter is_create (calls d)) + n
         \<and> (\<exists>cs. calls d' = calls d @ cs
               \<and> (\<forall>c \<in> set cs. (\<exists>h. c = Label_create h) \<or> (\<exists>h x y. c = Set_pos h x y))))
   \<and> lv_radar_update_markers cx cy r b ms 0 d = Some d
   \<and> lv_radar_add_markers cx cy r b ms 0 d = Some (ms, d)"
proof -
  have a: "\<exists>cs. d' = d\<lparr>calls := calls d @ cs\<rparr>
          \<and> (\<forall>c \<in> set cs. \<exists>h x y. c = Set_pos h x y)
          \<and> lv_radar_update_markers cx cy r b ms n d' = Some (d'\<lparr>calls := calls d' @ cs\<rparr>)"
    if u: "lv_radar_update_markers cx cy r b ms n d = Some d'" for d'
  proof -
    from u have l: "update_markers_loop cx cy (meters_per_pixel r b) n 0 ms d = Some d'"
      by (simp add: lv_radar_update_markers_def)
    from update_loop_emits [OF l] obtain cs where
      d': "d' = d\<lparr>calls := calls d @ cs\<rparr>" and
      sp: "\<forall>c \<in> set cs. \<exists>h x y. c = Set_pos h x y" and
      ind: "\<forall>d2. update_markers_loop cx cy (meters_per_pixel r b) n 0 ms d2
                   = Some (d2\<lparr>calls := calls d2 @ cs\<rparr>)"
      by blast
    from ind have "lv_radar_update_markers cx cy r b ms n d' = Some (d'\<lparr>calls := calls d' @ cs\<rparr>)"
      by (simp add: lv_radar_update_markers_def)
    with d' sp show ?thesis by blast
  qed
  have b: "length (filter is_create (calls d')) = length (filter is_create (calls d)) + n
         \<and> (\<exists>cs. calls d' = calls d @ cs
               \<and> (\<forall>c \<in> set cs. (\<exists>h. c = Label_create h) \<or> (\<exists>h x y. c = Set_pos h x y)))"
    if "lv_radar_add_markers cx cy r b ms n d = Some (ms', d')" for ms' d'
  proof -
    from that have l: "add_markers_loop cx cy (meters_per_pixel r b) n 0 (ms, d) = Some (ms', d')"
      by (simp add: lv_radar_add_markers_def)
    from add_loop_creates [OF l] add_loop_emits [OF l] show ?thesis by simp
  qed
  have c: "lv_radar_update_markers cx cy r b ms 0 d = Some d"
    by (simp add: lv_radar_update_markers_def update_markers_loop_stop)
  have e: "lv_radar_add_markers cx cy r b ms 0 d = Some (ms, d)"
    by (simp add: lv_radar_add_markers_def add_markers_loop_stop)
  show ?thesis using a b c e by blast
qed

theorem update_markers_repeat_witness:
  "lv_radar_update_markers 240 320 310 4 [marker_east\<lparr>icon := Some 0\<rparr>] 1 display1
     = Some (display1\<lparr>calls := calls display1 @ [Set_pos 0 309 312]\<rparr>)
   \<and> lv_radar_update_markers 240 320 310 4 [marker_east\<lparr>icon := Some 0\<rparr>] 1
        (display1\<lparr>calls := calls display1 @ [Set_pos 0 309 312]\<rparr>)
     = Some (display1\<lparr>calls := calls display1 @ [Set_pos 0 309 312] @ [Set_pos 0 309 312]\<rparr>)
   \<and> lv_radar_add_markers 240 320 310 4 [marker_east] 1 display0
     = Some ([marker_east\<lparr>icon := Some 0\<rparr>], display1)
   \<and> length (filter is_create (calls display1)) = length (filter is_create (calls display0)) + 1
   \<and> (\<exists>cs. calls display1 = calls display0 @ cs
         \<and> (\<forall>c \<in> set cs. (\<exists>h. c = Label_create h) \<or> (\<exists>h x y. c = Set_pos h x y)))
   \<and> lv_radar_update_markers 240 320 310 4 [marker_east\<lparr>icon := Some 0\<rparr>] 0 display1
     = Some display1
   \<and> lv_radar_update_markers 240 10 0 4 [marker_east\<lparr>icon := Some 0\<rparr>] 0 display1
     = Some display1
   \<and> lv_radar_add_markers 240 10 0 0 [marker_east\<lparr>icon := Some 0\<rparr>] 0 display1
     = Some ([marker_east\<lparr>icon := Some 0\<rparr>], display1)"
proof -
  let ?ms = "[marker_east\<lparr>icon := Some 0\<rparr>]"
  let ?d' = "display1\<lparr>calls := calls display1 @ [Set_pos 0 309 312]\<rparr>"
  have u: "lv_radar_update_markers 240 320 310 4 ?ms 1 display1 = Some ?d'"
    using marker_xy_east [of "Some 0"] meters_per_pixel_310
    by (simp add: lv_radar_update_markers_def update_markers_loop.simps [of _ _ _ _ 0]
          update_markers_loop_stop emit_def)
  note t = update_markers_repeat [where cx = 240 and cy = 320 and r = 310 and b = 4
      and ms = ?ms and n = 1 and d = display1]
  from t u obtain cs where
    d': "?d' = display1\<lparr>calls := calls display1 @ cs\<rparr>" and
    again: "lv_radar_update_markers 240 320 310 4 ?ms 1 ?d' = Some (?d'\<lparr>calls := calls ?d' @ cs\<rparr>)"
    by blast
  from d' have "calls ?d' = calls (display1\<lparr>calls := calls display1 @ cs\<rparr>)" by simp
  then have cs: "cs = [Set_pos 0 309 312]" by simp
  have z: "lv_radar_update_markers 240 320 310 4 ?ms 0 display1 = Some display1"
    using t by simp
  have ad: "lv_radar_add_markers 240 320 310 4 [marker_east] 1 display0 = Some (?ms, display1)"
    using marker_xy_east [of None] meters_per_pixel_310
    by (simp add: lv_radar_add_markers_def add_markers_loop.simps [of _ _ _ _ 0]
          add_markers_loop_stop lv_label_create_def emit_def display0_def display1_def
          marker_east_def)
  note ta = update_markers_repeat [where cx = 240 and cy = 320 and r = 310 and b = 4
      and ms = "[marker_east]" and n = 1 and d = display0]
  from ta ad have cnt:
    "length (filter is_create (calls display1)) = length (filter is_create (calls display0)) + 1
     \<and> (\<exists>cs. calls display1 = calls display0 @ cs
         \<and> (\<forall>c \<in> set cs. (\<exists>h. c = Label_create h) \<or> (\<exists>h x y. c = Set_pos h x y)))"
    by blast
  have z0: "lv_radar_update_markers 240 10 0 4 ?ms 0 display1 = Some display1"
    using update_markers_repeat [where cx = 240 and cy = 10 and r = 0 and b = 4
      and ms = ?ms and n = 1 and d = display1] by simp
  have a0: "lv_radar_add_markers 240 10 0 0 ?ms 0 display1 = Some (?ms, display1)"
    using update_markers_repeat [where cx = 240 and cy = 10 and r = 0 and b = 0
      and ms = ?ms and n = 1 and d = display1] by simp
  show ?thesis using u again cs z ad cnt z0 a0 by simp
qed

section \<open>Drawing the grid\<close>

lemma draw_lines_total:
  assumes "line_count \<noteq> 1" and "line_count \<le> 10" and "\<bar>r\<bar> \<le> 32767"
  shows "\<exists>d'. draw_lines cx cy r line_count i d = Some d'
           \<and> length (filter is_create (calls d'))
               = length (filter is_create (calls d)) + (line_count - i)
           \<and> next_handle d' = next_handle d + (line_count - i)
           \<and> set (calls d) \<subseteq> set (calls d')"
  using assms
proof (induction cx cy r line_count i d rule: draw_lines.induct)
  case (1 cx cy r line_count i d)
  show ?case
  proof (cases "i < line_count")
    case False
    then show ?thesis by (simp add: draw_lines.simps [of cx cy r line_count i])
  next
    case True
    have len: "\<bar>real_of_int r\<bar> \<le> 32767" using "1.prems" by linarith
    from True "1.prems" have i10: "i < 10" by simp
    from "1.prems" True have nz: "real_of_int (int line_count - 1) \<noteq> 0" by simp
    let ?step = "180 / real_of_int (int line_count - 1)"
    let ?p = "(wrap16 (cx + c_trunc (real_of_int r * cos (deg2rad (?step * real i)))),
               wrap16 (cy - c_trunc (real_of_int r * sin (deg2rad (?step * real i)))))"
    have fd: "fdiv 180 (real_of_int (int line_count - 1)) = Some ?step"
      using nz by (simp add: fdiv_def)
    have ep: "end_point cx cy (real_of_int r) (deg2rad (?step * real i)) = Some ?p"
      by (rule end_point_Some [OF len])
    obtain line d1 where cr: "lv_line_create d = (line, d1)"
      by (cases "lv_line_create d") auto
    from "1.IH" [OF True fd ep cr [symmetric] i10 "1.prems"] obtain d' where
      r: "draw_lines cx cy r line_count (i + 1) (emit (Line_set_points line [(cx, cy), ?p]) d1) = Some d'" and
      n: "length (filter is_create (calls d'))
            = length (filter is_create (calls (emit (Line_set_points line [(cx, cy), ?p]) d1)))
              + (line_count - (i + 1))" and
      h: "next_handle d' = next_handle (emit (Line_set_points line [(cx, cy), ?p]) d1) + (line_count - (i + 1))" and
      sub: "set (calls (emit (Line_set_points line [(cx, cy), ?p]) d1)) \<subseteq> set (calls d')"
      by blast
    have r': "draw_lines cx cy r line_count i d = Some d'"
      using True fd ep cr i10 r by (simp add: draw_lines.simps [of cx cy r line_count i])
    have n1: "length (filter is_create (calls (emit (Line_set_points line [(cx, cy), ?p]) d1)))
                = length (filter is_create (calls d)) + 1"
      using cr by (auto simp: lv_line_create_def emit_def)
    have h1: "next_handle (emit (Line_set_points line [(cx, cy), ?p]) d1) = next_handle d + 1"
      using cr by (auto simp: lv_line_create_def emit_def)
    have s1: "set (calls d) \<subseteq> set (calls (emit (Line_set_points line [(cx, cy), ?p]) d1))"
      using cr by (auto simp: lv_line_create_def emit_def)
    show ?thesis using r' n n1 h h1 sub s1 True by auto
  qed
qed


lemma draw_lines_v0_total:
  assumes "line_count \<noteq> 1" and "\<bar>r\<bar> \<le> 32767"
  shows "\<exists>d'. draw_lines_v0 cx cy r line_count i d = Some d'
           \<and> length (filter is_create (calls d'))
               = length (filter is_create (calls d)) + (line_count - i)"
  using assms
proof (induction cx cy r line_count i d rule: draw_lines_v0.induct)
  case (1 cx cy r line_count i d)
  show ?case
  proof (cases "i < line_count")
    case False
    then show ?thesis by (simp add: draw_lines_v0.simps [of cx cy r line_count i])
  next
    case True
    have len: "\<bar>real_of_int r\<bar> \<le> 32767" using "1.prems" by linarith
    from "1.prems" True have nz: "real_of_int (int line_count - 1) \<noteq> 0" by simp
    let ?step = "180 / real_of_int (int line_count - 1)"
    let ?p = "(wrap16 (cx + c_trunc (real_of_int r * cos (deg2rad (?step * real i)))),
               wrap16 (cy - c_trunc (real_of_int r * sin (deg2rad (?step * real i)))))"
    have fd: "fdiv 180 (real_of_int (int line_count - 1)) = Some ?step"
      using nz by (simp add: fdiv_def)
    have ep: "end_point cx cy (real_of_int r) (deg2rad (?step * real i)) = Some ?p"
      by (rule end_point_Some [OF len])
    obtain line d1 where cr: "lv_line_create d = (line, d1)"
      by (cases "lv_line_create d") auto
    from "1.IH" [OF True fd ep cr [symmetric] "1.prems"] obtain d' where
      r: "draw_lines_v0 cx cy r line_count (i + 1) (emit (Line_set_points line [(cx, cy), ?p]) d1) = Some d'" and
      n: "length (filter is_create (calls d'))
            = length (filter is_create (calls (emit (Line_set_points line [(cx, cy), ?p]) d1)))
              + (line_count - (i + 1))"
      by blast
    have r': "draw_lines_v0 cx cy r line_count i d = Some d'"
      using True fd ep cr r by (simp add: draw_lines_v0.simps [of cx cy r line_count i])
    have n1: "length (filter is_create (calls (emit (Line_set_points line [(cx, cy), ?p]) d1)))
                = length (filter is_create (calls d)) + 1"
      using cr by (auto simp: lv_line_create_def emit_def)
    show ?thesis using r' n n1 True by auto
  qed
qed

lemma draw_band_lines_v0_creates:
  "length (filter is_create (calls (draw_band_lines_v0 cx cy br band_count band d)))
     = length (filter is_create (calls d)) + (band_count - band)"
proof (induction cx cy br band_count band d rule: draw_band_lines_v0.induct)
  case (1 cx cy br band_count band d)
  show ?case
  proof (cases "band < band_count")
    case False
    then show ?thesis by (simp add: draw_band_lines_v0.simps [of cx cy br band_count band])
  next
    case True
    obtain h d1 where cr: "lv_line_create d = (h, d1)"
      by (cases "lv_line_create d") auto
    have n1: "length (filter is_create (calls (emit c d1))) = length (filter is_create (calls d)) + 1"
      if "\<not> is_create c" for c
      using cr that by (auto simp: lv_line_create_def emit_def)
    from "1.IH" [OF True cr [symmetric]] True cr show ?thesis
      by (simp add: draw_band_lines_v0.simps [of cx cy br band_count band] n1)
  qed
qed

lemma draw_arcs_total:
  "band_count \<le> 254 \<Longrightarrow> band \<le> band_count + 1 \<Longrightarrow>
     \<exists>d'. draw_arcs cx cy br band_count band d = Some d'
       \<and> length (filter is_create (calls d'))
           = length (filter is_create (calls d)) + (band_count + 1 - band)
       \<and> set (calls d) \<subseteq> set (calls d')
       \<and> (\<forall>k. band \<le> k \<and> k \<le> band_count \<longrightarrow>
             (\<exists>h. Arc_create h \<in> set (calls d')
                \<and> Set_size h (wrap16 (br * int k) * 2) (wrap16 (br * int k) * 2) \<in> set (calls d')))"
proof (induction "band_count + 1 - band" arbitrary: band d)
  case 0
  then have nb: "\<not> band \<le> band_count" by simp
  then have "draw_arcs cx cy br band_count band d = Some d"
    by (simp add: draw_arcs.simps [of cx cy br band_count band])
  with nb 0 show ?case by auto
next
  case (Suc n)
  then have le: "band \<le> band_count" by simp
  with Suc.prems have md: "(band + 1) mod 256 = band + 1" by simp
  obtain arc d1 where cr: "lv_arc_create d = (arc, d1)"
    by (cases "lv_arc_create d") auto
  let ?cur = "wrap16 (br * int band)"
  let ?d3 = "emit (Set_pos arc (cx - ?cur) (cy - ?cur)) (emit (Set_size arc (?cur * 2) (?cur * 2)) d1)"
  have n1: "n = band_count + 1 - (band + 1)" using Suc.hyps(2) by simp
  have le1: "band + 1 \<le> band_count + 1" using le by simp
  from Suc.hyps(1) [OF n1 Suc.prems(1) le1, of ?d3] obtain d' where
    r: "draw_arcs cx cy br band_count (band + 1) ?d3 = Some d'" and
    n: "length (filter is_create (calls d'))
          = length (filter is_create (calls ?d3)) + (band_count + 1 - (band + 1))" and
    sub: "set (calls ?d3) \<subseteq> set (calls d')" and
    ks: "\<forall>k. band + 1 \<le> k \<and> k \<le> band_count \<longrightarrow>
             (\<exists>h. Arc_create h \<in> set (calls d')
                \<and> Set_size h (wrap16 (br * int k) * 2) (wrap16 (br * int k) * 2) \<in> set (calls d'))"
    by blast
  have r': "draw_arcs cx cy br band_count band d = Some d'"
    using le cr md r by (simp add: draw_arcs.simps [of cx cy br band_count band])
  have c3: "calls ?d3 = calls d @ [Arc_create arc, Set_size arc (?cur * 2) (?cur * 2),
                                     Set_pos arc (cx - ?cur) (cy - ?cur)]"
    using cr by (auto simp: lv_arc_create_def emit_def)
  have n3: "length (filter is_create (calls ?d3)) = length (filter is_create (calls d)) + 1"
    by (simp add: c3)
  have s3: "set (calls d) \<subseteq> set (calls d')" using sub c3 by auto
  have here: "Arc_create arc \<in> set (calls d') \<and> Set_size arc (?cur * 2) (?cur * 2) \<in> set (calls d')"
    using sub c3 by auto
  have all: "\<exists>h. Arc_create h \<in> set (calls d')
                \<and> Set_size h (wrap16 (br * int k) * 2) (wrap16 (br * int k) * 2) \<in> set (calls d')"
    if "band \<le> k \<and> k \<le> band_count" for k
  proof (cases "k = band")
    case True
    with here show ?thesis by blast
  next
    case False
    with that have "band + 1 \<le> k \<and> k \<le> band_count" by simp
    with ks show ?thesis by blast
  qed
  show ?case using r' n n3 s3 all le by auto
qed


lemma c_div_Some: "b \<noteq> 0 \<Longrightarrow> c_div a b = Some (c_quot a b)"
  by (simp add: c_div_def)

lemma screen_draw_total:
  assumes "1 \<le> band_count" and "band_count \<le> 254"
    and "line_count \<noteq> 1" and "line_count \<le> 10" and "\<bar>r\<bar> \<le> 32767"
  shows "\<exists>d'. lv_radar_screen_draw cx cy r band_count line_count d = Some d'
           \<and> length (filter is_create (calls d'))
               = length (filter is_create (calls d)) + line_count + band_count"
proof -
  have q: "c_div r (int band_count) = Some (c_quot r (int band_count))"
    using assms(1) by (simp add: c_div_Some)
  from draw_lines_total [OF assms(3,4,5), of cx cy 0 d] obtain d1 where
    l: "draw_lines cx cy r line_count 0 d = Some d1" and
    n1: "length (filter is_create (calls d1)) = length (filter is_create (calls d)) + line_count"
    by auto
  have "1 \<le> band_count + 1" by simp
  from draw_arcs_total [OF assms(2) this, of cx cy "wrap16 (c_quot r (int band_count))" d1]
  obtain d' where
    a: "draw_arcs cx cy (wrap16 (c_quot r (int band_count))) band_count 1 d1 = Some d'" and
    n2: "length (filter is_create (calls d')) = length (filter is_create (calls d1)) + (band_count + 1 - 1)"
    by auto
  show ?thesis using q l a n1 n2 by (simp add: lv_radar_screen_draw_def)
qed

lemma screen_draw_v0_total:
  assumes "1 \<le> band_count" and "band_count \<le> 254"
    and "line_count \<noteq> 1" and "\<bar>r\<bar> \<le> 32767"
  shows "\<exists>d'. lv_radar_screen_draw_v0 cx cy r band_count line_count d = Some d'
           \<and> length (filter is_create (calls d'))
               = length (filter is_create (calls d)) + band_count + line_count + (band_count - 1)"
proof -
  have q: "c_div r (int band_count) = Some (c_quot r (int band_count))"
    using assms(1) by (simp add: c_div_Some)
  have "1 \<le> band_count + 1" by simp
  from draw_arcs_total [OF assms(2) this, of cx cy "wrap16 (c_quot r (int band_count))" d]
  obtain d1 where
    a: "draw_arcs cx cy (wrap16 (c_quot r (int band_count))) band_count 1 d = Some d1" and
    n1: "length (filter is_create (calls d1)) = length (filter is_create (calls d)) + (band_count + 1 - 1)"
    by auto
  from draw_lines_v0_total [OF assms(3,4), of cx cy 0 d1] obtain d2 where
    l: "draw_lines_v0 cx cy r line_count 0 d1 = Some d2" and
    n2: "length (filter is_create (calls d2)) = length (filter is_create (calls d1)) + line_count"
    by auto
  show ?thesis
    using q a l n1 n2 by (simp add: lv_radar_screen_draw_v0_def draw_band_lines_v0_creates)
qed

lemma screen_draw_zero_bands:
  "lv_radar_screen_draw cx cy r 0 line_count d = None
   \<and> lv_radar_screen_draw_v0 cx cy r 0 line_count d = None"
  by (simp add: lv_radar_screen_draw_def lv_radar_screen_draw_v0_def c_div_def)

lemma screen_create_total:
  assumes "- 32757 \<le> height" and "height \<le> 32767"
  shows "\<exists>cont d'. lv_radar_screen_create width height d
             = Some (cont, (wrap16 (c_quot width 2), height, height - 10), d')
           \<and> length (filter is_create (calls d')) = length (filter is_create (calls d)) + 13"
proof -
  obtain cont d1 where cr: "lv_obj_create d = (cont, d1)"
    by (cases "lv_obj_create d") auto
  let ?d2 = "emit (Set_size cont width height) d1"
  have w: "wrap16 (height - 10) = height - 10" using assms by (simp add: wrap16_id)
  have r: "\<bar>height - 10\<bar> \<le> 32767" using assms by simp
  have c2: "length (filter is_create (calls ?d2)) = length (filter is_create (calls d))"
    using cr by (auto simp: lv_obj_create_def emit_def)
  have "(1::nat) \<le> 4" "(4::nat) \<le> 254" "(9::nat) \<noteq> 1" "(9::nat) \<le> 10" by simp_all
  from screen_draw_total [OF this r, of "wrap16 (c_quot width 2)" height ?d2] obtain d' where
    dr: "lv_radar_screen_draw (wrap16 (c_quot width 2)) height (height - 10) 4 9 ?d2 = Some d'" and
    n: "length (filter is_create (calls d')) = length (filter is_create (calls ?d2)) + 9 + 4"
    by blast
  show ?thesis using cr dr n c2 w by (simp add: lv_radar_screen_create_def Let_def)
qed

text \<open>
  Claim C8 as stated fails: nothing in the construction checks the configuration. A height
  of 10 gives the radius 0 and a height of 5 the radius -5, and in both cases the whole
  grid of 9 lines and 4 arcs is created and the construction returns its container.
\<close>

theorem screen_create_zero_radius:
  "lv_radar_screen_create 480 10 display0 \<noteq> None
   \<and> fst (snd (the (lv_radar_screen_create 480 10 display0))) = (240, 10, 0)
   \<and> length (filter is_create (calls (snd (snd (the (lv_radar_screen_create 480 10 display0)))))) = 13
   \<and> lv_radar_screen_create 480 5 display0 \<noteq> None
   \<and> fst (snd (the (lv_radar_screen_create 480 5 display0))) = (240, 5, - 5)
   \<and> length (filter is_create (calls (snd (snd (the (lv_radar_screen_create 480 5 display0)))))) = 13"
proof -
  have q: "wrap16 (c_quot 480 2) = 240" by (simp add: c_quot_def wrap16_def)
  have "- 32757 \<le> (10::int)" "(10::int) \<le> 32767" by simp_all
  from screen_create_total [OF this, of 480 display0] obtain cont d' where
    a: "lv_radar_screen_create 480 10 display0 = Some (cont, (240, 10, 0), d')" and
    n: "length (filter is_create (calls d')) = 13"
    by (auto simp: q display0_def)
  have "- 32757 \<le> (5::int)" "(5::int) \<le> 32767" by simp_all
  from screen_create_total [OF this, of 480 display0] obtain cont2 d2 where
    a2: "lv_radar_screen_create 480 5 display0 = Some (cont2, (240, 5, - 5), d2)" and
    n2: "length (filter is_create (calls d2)) = 13"
    by (auto simp: q display0_def)
  show ?thesis using a n a2 n2 by simp
qed

text \<open>
  Claim C8, amended. The construction reports no configuration error. For at least one
  and at most 254 bands, a line count other than 1 and at most 10, and every radius of
  magnitude up to 32767, zero and negative ones included, \<open>lv_radar_screen_draw\<close> is well
  defined, with no division by zero, and creates every line and every arc of the grid; the
  earlier version creates its arcs, lines and inner band lines. \<open>lv_radar_screen_create\<close>,
  which passes 4 bands and 9 lines, is well defined for every height from -32757 to 32767
  and creates the 13 primitives.
\<close>

theorem screen_draw_defined:
  assumes "1 \<le> band_count" and "band_count \<le> 254"
    and "line_count \<noteq> 1" and "line_count \<le> 10" and "\<bar>r\<bar> \<le> 32767"
  shows "(\<exists>d'. lv_radar_screen_draw cx cy r band_count line_count d = Some d'
            \<and> length (filter is_create (calls d'))
                = length (filter is_create (calls d)) + line_count + band_count)
       \<and> (\<exists>d'. lv_radar_screen_draw_v0 cx cy r band_count line_count d = Some d'
            \<and> length (filter is_create (calls d'))
                = length (filter is_create (calls d)) + band_count + line_count + (band_count - 1))
       \<and> (- 32757 \<le> height \<and> height \<le> 32767 \<longrightarrow>
            (\<exists>cont d'. lv_radar_screen_create width height d
                 = Some (cont, (wrap16 (c_quot width 2), height, height - 10), d')
               \<and> length (filter is_create (calls d'))
                   = length (filter is_create (calls d)) + 13))"
  using screen_draw_total [OF assms] screen_draw_v0_total [OF assms(1,2,3,5)]
    screen_create_total [of height width d]
  by blast

theorem screen_draw_defined_witness:
  "(1::nat) \<le> 4 \<and> (4::nat) \<le> 254 \<and> (9::nat) \<noteq> 1 \<and> (9::nat) \<le> 10 \<and> \<bar>310::int\<bar> \<le> 32767
   \<and> (\<exists>d'. lv_radar_screen_draw 240 320 310 4 9 display0 = Some d'
          \<and> length (filter is_create (calls d')) = 13)
   \<and> (\<exists>d'. lv_radar_screen_draw_v0 240 320 310 4 9 display0 = Some d'
          \<and> length (filter is_create (calls d')) = 16)
   \<and> (- 32757 \<le> (320::int) \<and> (320::int) \<le> 32767)
   \<and> (\<exists>cont d'. lv_radar_screen_create 480 320 display0 = Some (cont, (240, 320, 310), d')
          \<and> length (filter is_create (calls d')) = 13)"
proof -
  have h: "(1::nat) \<le> 4" "(4::nat) \<le> 254" "(9::nat) \<noteq> 1" "(9::nat) \<le> 10" "\<bar>310::int\<bar> \<le> 32767"
    by simp_all
  have q: "wrap16 (c_quot 480 2) = 240" by (simp add: c_quot_def wrap16_def)
  from screen_draw_defined [OF h, of 240 320 display0 320 480] show ?thesis
    by (simp add: display0_def q)
qed

section \<open>The scale of markers and grid\<close>

lemma draw_lines_sizes:
  "draw_lines cx cy r line_count i d = Some d' \<Longrightarrow>
     filter is_set_size (calls d') = filter is_set_size (calls d)
     \<and> next_handle d' = next_handle d + (line_count - i)"
proof (induction cx cy r line_count i d rule: draw_lines.induct)
  case (1 cx cy r line_count i d)
  show ?case
  proof (cases "i < line_count")
    case False
    with "1.prems" show ?thesis by (simp add: draw_lines.simps [of cx cy r line_count i])
  next
    case True
    with "1.prems" obtain step p line d1 where
      fd: "fdiv 180 (real_of_int (int line_count - 1)) = Some step" and
      ep: "end_point cx cy (real_of_int r) (deg2rad (step * real i)) = Some p" and
      cr: "lv_line_create d = (line, d1)" and
      i10: "i < 10" and
      rec: "draw_lines cx cy r line_count (i + 1) (emit (Line_set_points line [(cx, cy), p]) d1) = Some d'"
      by (auto simp: draw_lines.simps [of cx cy r line_count i]
               split: option.splits prod.splits if_splits)
    note ih = "1.IH" [OF True fd ep cr [symmetric] i10 rec]
    have "filter is_set_size (calls (emit (Line_set_points line [(cx, cy), p]) d1))
            = filter is_set_size (calls d)"
      and "next_handle (emit (Line_set_points line [(cx, cy), p]) d1) = next_handle d + 1"
      using cr by (auto simp: lv_line_create_def emit_def)
    with ih True show ?thesis by simp
  qed
qed

lemma draw_arcs_310:
  "draw_arcs 240 320 77 4 1 d
     = Some (d\<lparr>next_handle := next_handle d + 4,
               calls := calls d @
                 [Arc_create (next_handle d),
                  Set_size (next_handle d) 154 154, Set_pos (next_handle d) 163 243,
                  Arc_create (next_handle d + 1),
                  Set_size (next_handle d + 1) 308 308, Set_pos (next_handle d + 1) 86 166,
                  Arc_create (next_handle d + 2),
                  Set_size (next_handle d + 2) 462 462, Set_pos (next_handle d + 2) 9 89,
                  Arc_create (next_handle d + 3),
                  Set_size (next_handle d + 3) 616 616, Set_pos (next_handle d + 3) (- 68) 12]\<rparr>)"
proof -
  have s5: "draw_arcs 240 320 77 4 5 e = Some e" for e
    by (subst draw_arcs.simps) simp
  have s4: "draw_arcs 240 320 77 4 4 e
      = Some (e\<lparr>next_handle := next_handle e + 1,
                calls := calls e @ [Arc_create (next_handle e),
                  Set_size (next_handle e) 616 616, Set_pos (next_handle e) (- 68) 12]\<rparr>)" for e
    by (subst draw_arcs.simps) (simp add: s5 lv_arc_create_def emit_def wrap16_def)
  have s3: "draw_arcs 240 320 77 4 3 e
      = Some (e\<lparr>next_handle := next_handle e + 2,
                calls := calls e @ [Arc_create (next_handle e),
                  Set_size (next_handle e) 462 462, Set_pos (next_handle e) 9 89,
                  Arc_create (next_handle e + 1),
                  Set_size (next_handle e + 1) 616 616, Set_pos (next_handle e + 1) (- 68) 12]\<rparr>)" for e
    by (subst draw_arcs.simps) (simp add: s4 lv_arc_create_def emit_def wrap16_def)
  have s2: "draw_arcs 240 320 77 4 2 e
      = Some (e\<lparr>next_handle := next_handle e + 3,
                calls := calls e @ [Arc_create (next_handle e),
                  Set_size (next_handle e) 308 308, Set_pos (next_handle e) 86 166,
                  Arc_create (next_handle e + 1),
                  Set_size (next_handle e + 1) 462 462, Set_pos (next_handle e + 1) 9 89,
                  Arc_create (next_handle e + 2),
                  Set_size (next_handle e + 2) 616 616, Set_pos (next_handle e + 2) (- 68) 12]\<rparr>)" for e
    by (subst draw_arcs.simps) (simp add: s3 lv_arc_create_def emit_def wrap16_def)
  show ?thesis
    by (subst draw_arcs.simps) (simp add: s2 lv_arc_create_def emit_def wrap16_def del: One_nat_def)
qed

text \<open>
  Claim C5 at the configuration of the panel, radius 310 and 4 bands. The band radius is
  \<open>310 / 4 = 77\<close> after truncation, so the four arcs have the diameters 154, 308, 462 and
  616: the arc of the fourth band, 8 meters, has the radius 308. The marker functions use
  \<open>8 / 310\<close> meters per pixel, which puts a marker at 8 meters 310 pixels from the centre.
\<close>

theorem grid_scale_mismatch:
  "c_div 310 4 = Some 77
   \<and> lv_radar_screen_draw 240 320 310 4 9 display0 \<noteq> None
   \<and> filter is_set_size (calls (the (lv_radar_screen_draw 240 320 310 4 9 display0)))
       = [Set_size 9 (2 * 77) (2 * 77), Set_size 10 (2 * 154) (2 * 154),
          Set_size 11 (2 * 231) (2 * 231), Set_size 12 (2 * 308) (2 * 308)]
   \<and> meters_per_pixel 310 4 = Fin (8 / 310)
   \<and> marker_xy 240 320 (Fin (8 / 310)) marker_8m = Some (240 + 310, 320)"
proof -
  have q: "c_div 310 4 = Some 77" by (simp add: c_div_def c_quot_def)
  have w: "wrap16 77 = 77" by (simp add: wrap16_def)
  have "(9::nat) \<noteq> 1" "(9::nat) \<le> 10" "\<bar>310::int\<bar> \<le> 32767" by simp_all
  from draw_lines_total [OF this, of 240 320 0 display0] obtain d1 where
    l: "draw_lines 240 320 310 9 0 display0 = Some d1" by blast
  from draw_lines_sizes [OF l] have
    s1: "filter is_set_size (calls d1) = []" and h1: "next_handle d1 = 9"
    by (simp_all add: display0_def)
  have dr: "lv_radar_screen_draw 240 320 310 4 9 display0 = draw_arcs 240 320 77 4 1 d1"
    using q l w by (simp add: lv_radar_screen_draw_def)
  have a: "lv_radar_screen_draw 240 320 310 4 9 display0 \<noteq> None"
    unfolding dr draw_arcs_310 by simp
  have b: "filter is_set_size (calls (the (lv_radar_screen_draw 240 320 310 4 9 display0)))
       = [Set_size 9 (2 * 77) (2 * 77), Set_size 10 (2 * 154) (2 * 154),
          Set_size 11 (2 * 231) (2 * 231), Set_size 12 (2 * 308) (2 * 308)]"
    unfolding dr draw_arcs_310 by (simp add: s1 h1)
  have m: "marker_xy 240 320 (Fin (8 / 310)) marker_8m = Some (240 + 310, 320)"
    by (simp add: marker_xy_def pixel_distance_def xdiv_def end_point_def f2i16_def marker_8m_def
          deg2rad_def cosf_def sinf_def wrap16_def c_trunc_def)
  show ?thesis using q a b m meters_per_pixel_310 by simp
qed


lemma marker_xy_icon: "marker_xy cx cy mpp (m\<lparr>icon := ic\<rparr>) = marker_xy cx cy mpp m"
  by (simp add: marker_xy_def split: xfloat.splits)

lemma add_loop_below:
  "add_markers_loop cx cy mpp n i (ms, d) = Some (ms', d') \<Longrightarrow>
     length ms' = length ms \<and> (\<forall>k < i. ms' ! k = ms ! k)"
proof (induction cx cy mpp n i "(ms, d)" arbitrary: ms d rule: add_markers_loop.induct)
  case (1 cx cy mpp n i ms d)
  show ?case
  proof (cases "i < n")
    case False
    with "1.prems" show ?thesis by (simp add: add_markers_loop_stop)
  next
    case True
    with "1.prems" obtain x y h d1 where
      il: "i < length ms" and
      xy: "marker_xy cx cy mpp (ms ! i) = Some (x, y)" and
      cr: "lv_label_create d = (h, d1)" and
      rec: "add_markers_loop cx cy mpp n (i + 1)
              (ms[i := (ms ! i)\<lparr>icon := Some h\<rparr>], emit (Set_pos h (x - 8) (y - 8)) d1) = Some (ms', d')"
      by (auto simp: add_markers_loop.simps [of cx cy mpp n i]
               split: if_splits option.splits prod.splits)
    from "1.hyps" [OF True refl il xy refl cr [symmetric] rec] show ?thesis by auto
  qed
qed

text \<open>
  Both marker functions take the same scale \<open>meters_per_pixel\<close> and the same transform,
  so an update after an add moves every icon to exactly the position the add gave it.
\<close>

lemma add_then_update_loop:
  "add_markers_loop cx cy mpp n i (ms, d) = Some (ms', d') \<Longrightarrow>
     \<exists>cs. calls d' = calls d @ cs
       \<and> (\<forall>d2. update_markers_loop cx cy mpp n i ms' d2
                  = Some (d2\<lparr>calls := calls d2 @ filter is_set_pos cs\<rparr>))"
proof (induction cx cy mpp n i "(ms, d)" arbitrary: ms d rule: add_markers_loop.induct)
  case (1 cx cy mpp n i ms d)
  show ?case
  proof (cases "i < n")
    case False
    with "1.prems" have "calls d' = calls d @ []" by (simp add: add_markers_loop_stop)
    moreover from False have "\<forall>d2. update_markers_loop cx cy mpp n i ms' d2
                  = Some (d2\<lparr>calls := calls d2 @ filter is_set_pos []\<rparr>)"
      by (simp add: update_markers_loop_stop)
    ultimately show ?thesis by blast
  next
    case True
    with "1.prems" obtain x y h d1 where
      il: "i < length ms" and
      xy: "marker_xy cx cy mpp (ms ! i) = Some (x, y)" and
      cr: "lv_label_create d = (h, d1)" and
      rec: "add_markers_loop cx cy mpp n (i + 1)
              (ms[i := (ms ! i)\<lparr>icon := Some h\<rparr>], emit (Set_pos h (x - 8) (y - 8)) d1) = Some (ms', d')"
      by (auto simp: add_markers_loop.simps [of cx cy mpp n i]
               split: if_splits option.splits prod.splits)
    let ?c = "Set_pos h (x - 8) (y - 8)"
    from "1.hyps" [OF True refl il xy refl cr [symmetric] rec] obtain cs where
      c: "calls d' = calls (emit ?c d1) @ cs" and
      u: "\<forall>d2. update_markers_loop cx cy mpp n (i + 1) ms' d2
                  = Some (d2\<lparr>calls := calls d2 @ filter is_set_pos cs\<rparr>)"
      by blast
    from add_loop_below [OF rec] il have
      l: "i < length ms'" and at: "ms' ! i = (ms ! i)\<lparr>icon := Some h\<rparr>"
      by simp_all
    have xy': "marker_xy cx cy mpp (ms' ! i) = Some (x, y)"
      using xy by (simp add: at marker_xy_icon)
    have ic: "icon (ms' ! i) = Some h" by (simp add: at)
    let ?cs = "[Label_create h, ?c] @ cs"
    have a: "calls d' = calls d @ ?cs"
      using c cr by (auto simp: lv_label_create_def emit_def)
    have b: "update_markers_loop cx cy mpp n i ms' d2
                  = Some (d2\<lparr>calls := calls d2 @ filter is_set_pos ?cs\<rparr>)" for d2
      using True l xy' ic u
      by (simp add: update_markers_loop.simps [of cx cy mpp n i] emit_def)
    show ?thesis using a b by blast
  qed
qed

lemma add_then_update_same_positions:
  assumes "lv_radar_add_markers cx cy r b ms n d = Some (ms', d')"
  shows "\<exists>cs. calls d' = calls d @ cs
           \<and> lv_radar_update_markers cx cy r b ms' n d'
               = Some (d'\<lparr>calls := calls d' @ filter is_set_pos cs\<rparr>)"
proof -
  from assms have
    l: "add_markers_loop cx cy (meters_per_pixel r b) n 0 (ms, d) = Some (ms', d')"
    by (simp add: lv_radar_add_markers_def)
  from add_then_update_loop [OF l] show ?thesis
    by (auto simp: lv_radar_update_markers_def)
qed

end
